theory Spec2Isabelle
  imports Main
begin

section \<open>The split view manager of browser-splitView.mjs\<close>

text \<open>
  The class \<open>SplitView\<close> keeps a list of groups (\<open>_data\<close>), the index of the group that
  is shown (\<open>currentView\<close>, \<open>-1\<close> for none), and writes attributes, inline styles and flags
  on tabs, their browsers and their containers. The embedding passes the whole of that
  state explicitly.

  \<^item> A tab is a handle (a number). The fields the code reads and writes on a tab, on its
    \<open>linkedBrowser\<close> and on the element \<open>linkedBrowser.closest(".browserSidebarContainer")\<close>
    are kept per tab; every tab has a container of its own, as in the host browser.
  \<^item> The \<open>tabs\<close> of a group is a JavaScript array held by reference: \<open>splitTabs\<close> stores the
    caller's array, \<open>removeTabFromGroup\<close> splices it in place and \<open>unsplitCurrentView\<close>
    iterates over it while it is spliced. Arrays of tabs therefore live in a store
    (\<open>arrays\<close>), and a group holds the address of its array.
  \<^item> An inline style is kept as its declaration block: one optional value for each property
    the code sets. \<open>removeAttribute("style")\<close> empties the block, assigning \<open>""\<close> to a
    property removes that declaration, and re-writing the \<open>style\<close> attribute as its old
    text followed by two declarations adds these two declarations.
  \<^item> Reading \<open>_data[i]\<close> outside the list gives \<open>undefined\<close>; reading \<open>.tabs\<close> of it throws
    a \<open>TypeError\<close>. Operations that can throw return \<open>error + state\<close>; the writes made
    before a throw are not kept in the error value.
  \<^item> \<open>window.gBrowser.selectedTab\<close> is a field of the state, and so is the preference
    \<open>floorp.browser.splitView.working\<close>. The panel \<open>tabbrowser-tabpanels\<close> and the
    containers are taken to exist.
  \<^item> The context menu, \<open>contextSplitTabs\<close>, \<open>onLocationChange\<close>, \<open>handleTabClick\<close> and
    \<open>openAndSwitchToTab\<close> only call into the operations below or into the host, and are
    left out.
\<close>

subsection \<open>JavaScript array primitives\<close>

type_synonym tab = nat
type_synonym addr = nat

datatype error = TypeError

text \<open>\<open>xs[i]\<close>: \<open>None\<close> stands for \<open>undefined\<close>.\<close>

definition at :: "'a list \<Rightarrow> int \<Rightarrow> 'a option" where
  "at xs i = (if 0 \<le> i \<and> i < int (length xs) then Some (xs ! nat i) else None)"

text \<open>\<open>xs.findIndex(p)\<close>: the first index whose element satisfies \<open>p\<close>, or \<open>-1\<close>.\<close>

fun findIndex :: "('a \<Rightarrow> bool) \<Rightarrow> 'a list \<Rightarrow> int" where
  "findIndex p [] = -1"
| "findIndex p (x # xs) =
     (if p x then 0 else (let r = findIndex p xs in if r < 0 then -1 else r + 1))"

text \<open>\<open>xs.indexOf(x)\<close>.\<close>

definition indexOf :: "'a list \<Rightarrow> 'a \<Rightarrow> int" where
  "indexOf xs x = findIndex (\<lambda>y. y = x) xs"

text \<open>\<open>xs.includes(v)\<close> on an array of tabs; \<open>v\<close> may be \<open>undefined\<close>, which no array of
  tabs includes.\<close>

definition includes_tab :: "tab list \<Rightarrow> tab option \<Rightarrow> bool" where
  "includes_tab xs v = (case v of None \<Rightarrow> False | Some t \<Rightarrow> t \<in> set xs)"

text \<open>\<open>xs.splice(i, 1)\<close>: a negative start counts from the end, and the start is clamped
  to the array.\<close>

definition splice1 :: "int \<Rightarrow> 'a list \<Rightarrow> 'a list" where
  "splice1 i xs =
     (let n = int (length xs);
          start = (if i < 0 then max (n + i) 0 else min i n)
      in take (nat start) xs @ drop (nat start + 1) xs)"

subsection \<open>State\<close>

record style =
  css_display :: "string option"
  css_flex :: "string option"
  css_order :: "nat option"
  css_subtree_hidden_only_visually :: "string option"
  css_visibility :: "string option"

definition no_style :: style where
  "no_style = \<lparr>css_display = None, css_flex = None, css_order = None,
     css_subtree_hidden_only_visually = None, css_visibility = None\<rparr>"

text \<open>The container of a tab: its attributes \<open>split\<close>, \<open>split-active\<close>, \<open>split-anim\<close>, whether
  its class list has \<open>deck-selected\<close>, whether \<open>handleTabClick\<close> is registered as a click
  listener, and its inline style.\<close>

record container =
  attr_split :: "string option"
  attr_split_active :: "string option"
  attr_split_anim :: "string option"
  deck_selected :: bool
  click_listener :: bool
  inline_style :: style

record tabState =
  splitView :: bool
  spliting :: bool
  docShellIsActive :: bool
  container :: container

text \<open>The element \<open>tabbrowser-tabpanels\<close>.\<close>

record panel =
  attr_split_view :: "string option"
  panel_display :: "string option"
  panel_flexDirection :: "string option"
  panel_flexTemplateAreas :: "string option"

text \<open>The only \<open>flexType\<close> the code ever stores is \<open>"flex"\<close>.\<close>

datatype flexType = Flex

record group =
  tabs :: addr
  flexType :: flexType

record state =
  data :: "group list"
  arrays :: "addr \<Rightarrow> tab list"
  currentView :: int
  tabBrowserPanel :: panel
  pref_working :: bool
  selectedTab :: "tab option"
  tabState :: "tab \<Rightarrow> tabState"

text \<open>\<open>group.tabs.includes(tab)\<close> in state \<open>s\<close>.\<close>

definition groupIncludes :: "state \<Rightarrow> tab option \<Rightarrow> group \<Rightarrow> bool" where
  "groupIncludes s v g = includes_tab (arrays s (tabs g)) v"

subsection \<open>Operations\<close>

text \<open>Every write on a tab, its browser or its container goes through \<open>onTab\<close>: the
  fields of one tab change, the other tabs keep theirs.\<close>

definition onTab :: "tab \<Rightarrow> (tabState \<Rightarrow> tabState) \<Rightarrow> state \<Rightarrow> state" where
  "onTab tab f s = s\<lparr>tabState := (tabState s)(tab := f (tabState s tab))\<rparr>"

text \<open>The writes of \<open>resetTabState(tab, forUnsplit)\<close>; an absent \<open>forUnsplit\<close> (a host
  \<open>TabClose\<close> event) is \<open>False\<close>.\<close>

definition resetTab :: "bool \<Rightarrow> tabState \<Rightarrow> tabState" where
  "resetTab forUnsplit ts0 =
     (let ts = ts0\<lparr>splitView := False, spliting := False\<rparr>;
          c = (container ts)\<lparr>attr_split := None, inline_style := no_style\<rparr>
      in if \<not> forUnsplit
         then ts\<lparr>docShellIsActive := False,
                container := c\<lparr>inline_style :=
                  (inline_style c)\<lparr>css_display := Some ''none''\<rparr>\<rparr>\<rparr>
         else ts\<lparr>container := c\<lparr>inline_style :=
                  (inline_style c)\<lparr>css_flex := None, css_order := None\<rparr>\<rparr>\<rparr>)"

definition resetTabState :: "tab \<Rightarrow> bool \<Rightarrow> state \<Rightarrow> state" where
  "resetTabState tab forUnsplit s = onTab tab (resetTab forUnsplit) s"

definition resetSplitView :: "state \<Rightarrow> error + state" where
  "resetSplitView s =
     (case at (data s) (currentView s) of
        None \<Rightarrow> Inl TypeError
      | Some g \<Rightarrow>
          (let s1 = fold (\<lambda>tab. resetTabState tab True) (arrays s (tabs g)) s
           in Inr (s1\<lparr>currentView := -1,
                      tabBrowserPanel := (tabBrowserPanel s1)\<lparr>attr_split_view := None,
                         panel_display := None, panel_flexDirection := None\<rparr>,
                      pref_working := False\<rparr>)))"

definition removeGroup :: "int \<Rightarrow> state \<Rightarrow> error + state" where
  "removeGroup groupIndex s =
     (case (if currentView s = groupIndex then resetSplitView s else Inr s) of
        Inl e \<Rightarrow> Inl e
      | Inr s1 \<Rightarrow> Inr (s1\<lparr>data := splice1 groupIndex (data s1)\<rparr>))"

definition resetContainerStyle :: "container \<Rightarrow> container" where
  "resetContainerStyle c =
     c\<lparr>attr_split_active := None, deck_selected := False,
       inline_style := (inline_style c)\<lparr>css_flex := None, css_order := None\<rparr>\<rparr>"

text \<open>The body of the loop of \<open>setTabsDocShellState\<close> for one tab.\<close>

definition docShellTab :: "bool \<Rightarrow> tabState \<Rightarrow> tabState" where
  "docShellTab active ts0 =
     (let ts = ts0\<lparr>spliting := active, docShellIsActive := active\<rparr>;
          browser = container ts
      in ts\<lparr>container :=
           (if active
            then browser\<lparr>attr_split := Some ''true'',
                   inline_style := (inline_style browser)\<lparr>
                     css_subtree_hidden_only_visually := Some ''0'',
                     css_visibility := Some ''visible !important''\<rparr>\<rparr>
            else browser\<lparr>attr_split := None, inline_style := no_style\<rparr>)\<rparr>)"

definition setTabsDocShellState :: "tab list \<Rightarrow> bool \<Rightarrow> state \<Rightarrow> state" where
  "setTabsDocShellState ts active s = fold (\<lambda>tab. onTab tab (docShellTab active)) ts s"

definition styleContainer :: "container \<Rightarrow> bool \<Rightarrow> nat \<Rightarrow> flexType \<Rightarrow> container" where
  "styleContainer c isActive index ft =
     (let c1 = c\<lparr>attr_split_active := None\<rparr>;
          c2 = (if isActive then c1\<lparr>attr_split_active := Some ''true''\<rparr> else c1);
          c3 = c2\<lparr>attr_split_anim := Some ''true'', click_listener := True\<rparr>
      in (case ft of Flex \<Rightarrow>
            c3\<lparr>inline_style := (inline_style c3)\<lparr>css_flex := Some ''1'',
                                                   css_order := Some index\<rparr>\<rparr>))"

text \<open>The body of the \<open>forEach\<close> of \<open>applyFlexBoxLayout\<close> for one tab and its index.\<close>

definition layoutTab :: "flexType \<Rightarrow> tab option \<Rightarrow> tab \<Rightarrow> nat \<Rightarrow> tabState \<Rightarrow> tabState" where
  "layoutTab ft activeTab tab index ts0 =
     (let ts = ts0\<lparr>splitView := True\<rparr>
      in ts\<lparr>container := styleContainer (container ts) (Some tab = activeTab) index ft\<rparr>)"

fun layoutTabs :: "flexType \<Rightarrow> tab option \<Rightarrow> tab list \<Rightarrow> nat \<Rightarrow> state \<Rightarrow> state" where
  "layoutTabs ft activeTab [] index s = s"
| "layoutTabs ft activeTab (tab # ts) index s =
     layoutTabs ft activeTab ts (index + 1) (onTab tab (layoutTab ft activeTab tab index) s)"

definition applyFlexBoxLayout :: "tab list \<Rightarrow> flexType \<Rightarrow> tab option \<Rightarrow> state \<Rightarrow> state" where
  "applyFlexBoxLayout ts ft activeTab s =
     layoutTabs ft activeTab ts 0
       (s\<lparr>tabBrowserPanel := (tabBrowserPanel s)\<lparr>panel_flexDirection := Some ''column''\<rparr>\<rparr>)"

text \<open>\<open>splitData.flexType || "flex"\<close> is \<open>splitData.flexType\<close>, which is \<open>"flex"\<close>. A group
  is looked up in \<open>_data\<close> by its fields; \<open>updateSplitView\<close> passes the group it found by
  \<open>find\<close>, for which \<open>indexOf\<close> gives the index where \<open>find\<close> found it.\<close>

definition activateSplitView :: "group \<Rightarrow> tab option \<Rightarrow> state \<Rightarrow> state" where
  "activateSplitView splitData activeTab s =
     (let s1 = s\<lparr>tabBrowserPanel := (tabBrowserPanel s)\<lparr>attr_split_view := Some ''true''\<rparr>,
                  pref_working := True,
                  currentView := indexOf (data s) splitData\<rparr>;
          ft = flexType splitData;
          s2 = applyFlexBoxLayout (arrays s1 (tabs splitData)) ft activeTab s1
      in setTabsDocShellState (arrays s2 (tabs splitData)) True s2)"

text \<open>The body of the loop of \<open>deactivateSplitView\<close> for one tab: \<open>resetContainerStyle\<close>,
  then \<open>removeEventListener\<close>.\<close>

definition deactivateTab :: "tabState \<Rightarrow> tabState" where
  "deactivateTab ts =
     ts\<lparr>container := (resetContainerStyle (container ts))\<lparr>click_listener := False\<rparr>\<rparr>"

definition deactivateSplitView :: "state \<Rightarrow> error + state" where
  "deactivateSplitView s =
     (case at (data s) (currentView s) of
        None \<Rightarrow> Inl TypeError
      | Some g \<Rightarrow>
          (let s1 = fold (\<lambda>tab. onTab tab deactivateTab) (arrays s (tabs g)) s;
               s2 = s1\<lparr>tabBrowserPanel := (tabBrowserPanel s1)\<lparr>attr_split_view := None,
                          panel_flexTemplateAreas := Some []\<rparr>,
                       pref_working := False\<rparr>;
               s3 = setTabsDocShellState (arrays s2 (tabs g)) False s2
           in Inr (s3\<lparr>currentView := -1\<rparr>)))"

text \<open>
  \<open>updateSplitView(tab)\<close>. The test
  \<open>!splitData || (this.currentView >= 0 && !this._data[this.currentView].tabs.includes(tab))\<close>
  is written out by cases: without a group for \<open>tab\<close> the active group, if any, is
  deactivated and the function returns; with one, the active group is deactivated first
  when it does not include \<open>tab\<close>. \<open>_data[currentView]\<close> is read only when \<open>splitData\<close> exists
  and \<open>currentView >= 0\<close>, and in \<open>deactivateSplitView\<close>.
\<close>

definition updateSplitView :: "tab option \<Rightarrow> state \<Rightarrow> error + state" where
  "updateSplitView tab s =
     (case find (groupIncludes s tab) (data s) of
        None \<Rightarrow> (if currentView s \<ge> 0 then deactivateSplitView s else Inr s)
      | Some splitData \<Rightarrow>
          (if currentView s \<ge> 0 then
             (case at (data s) (currentView s) of
                None \<Rightarrow> Inl TypeError
              | Some cur \<Rightarrow>
                  (if \<not> groupIncludes s tab cur then
                     (case deactivateSplitView s of
                        Inl e \<Rightarrow> Inl e
                      | Inr s1 \<Rightarrow> Inr (activateSplitView splitData tab s1))
                   else Inr (activateSplitView splitData tab s)))
           else Inr (activateSplitView splitData tab s)))"

definition removeTabFromGroup :: "tab \<Rightarrow> int \<Rightarrow> bool \<Rightarrow> state \<Rightarrow> error + state" where
  "removeTabFromGroup tab groupIndex forUnsplit s =
     (case at (data s) groupIndex of
        None \<Rightarrow> Inl TypeError
      | Some g \<Rightarrow>
          (let a = tabs g;
               tabIndex = indexOf (arrays s a) tab;
               s1 = s\<lparr>arrays := (arrays s)(a := splice1 tabIndex (arrays s a))\<rparr>;
               s2 = resetTabState tab forUnsplit s1
           in if length (arrays s2 a) < 2
              then removeGroup groupIndex s2
              else updateSplitView (at (arrays s2 a) (int (length (arrays s2 a)) - 1)) s2))"

definition handleTabClose :: "tab \<Rightarrow> bool \<Rightarrow> state \<Rightarrow> error + state" where
  "handleTabClose tab forUnsplit s =
     (let groupIndex = findIndex (groupIncludes s (Some tab)) (data s)
      in if groupIndex < 0 then Inr s
         else removeTabFromGroup tab groupIndex forUnsplit s)"

text \<open>\<open>splitTabs(tabs)\<close>, with \<open>tabs\<close> the array at address \<open>a\<close>; \<open>tabs[0]\<close> of an empty
  array is \<open>undefined\<close>.\<close>

definition splitTabs :: "addr \<Rightarrow> state \<Rightarrow> error + state" where
  "splitTabs a s =
     (let ts = arrays s a;
          existingSplitTab = find (\<lambda>tab. splitView (tabState s tab)) ts
      in if existingSplitTab \<noteq> None
            \<and> findIndex (groupIncludes s existingSplitTab) (data s) \<ge> 0
         then updateSplitView existingSplitTab s
         else (let s1 = s\<lparr>data := data s @ [\<lparr>tabs = a, flexType = Flex\<rparr>]\<rparr>;
                   s2 = s1\<lparr>selectedTab := at ts 0\<rparr>
               in updateSplitView (at ts 0) s2))"

text \<open>The constructor: no group, no current view, the preference off. Everything else is
  the window's.\<close>

definition constructor :: "state \<Rightarrow> state" where
  "constructor s = s\<lparr>data := [], currentView := -1, pref_working := False\<rparr>"

subsection \<open>Fields that the operations leave alone\<close>

lemma length_splice1: "length (splice1 i xs) \<le> length xs"
  by (simp add: splice1_def Let_def)

lemma onTab_frame [simp]:
  "data (onTab t f s) = data s"
  "arrays (onTab t f s) = arrays s"
  "currentView (onTab t f s) = currentView s"
  "tabBrowserPanel (onTab t f s) = tabBrowserPanel s"
  "pref_working (onTab t f s) = pref_working s"
  "selectedTab (onTab t f s) = selectedTab s"
  by (simp_all add: onTab_def)

lemma fold_onTab_frame [simp]:
  "data (fold (\<lambda>t. onTab t f) ts s) = data s"
  "arrays (fold (\<lambda>t. onTab t f) ts s) = arrays s"
  "currentView (fold (\<lambda>t. onTab t f) ts s) = currentView s"
  "tabBrowserPanel (fold (\<lambda>t. onTab t f) ts s) = tabBrowserPanel s"
  "pref_working (fold (\<lambda>t. onTab t f) ts s) = pref_working s"
  "selectedTab (fold (\<lambda>t. onTab t f) ts s) = selectedTab s"
  by (induction ts arbitrary: s; simp)+

lemma resetTabState_frame [simp]:
  "data (resetTabState t b s) = data s"
  "arrays (resetTabState t b s) = arrays s"
  "currentView (resetTabState t b s) = currentView s"
  "tabBrowserPanel (resetTabState t b s) = tabBrowserPanel s"
  "pref_working (resetTabState t b s) = pref_working s"
  "selectedTab (resetTabState t b s) = selectedTab s"
  by (simp_all add: resetTabState_def)

lemma fold_resetTabState_frame [simp]:
  "data (fold (\<lambda>t. resetTabState t b) ts s) = data s"
  "arrays (fold (\<lambda>t. resetTabState t b) ts s) = arrays s"
  "currentView (fold (\<lambda>t. resetTabState t b) ts s) = currentView s"
  "tabBrowserPanel (fold (\<lambda>t. resetTabState t b) ts s) = tabBrowserPanel s"
  "pref_working (fold (\<lambda>t. resetTabState t b) ts s) = pref_working s"
  "selectedTab (fold (\<lambda>t. resetTabState t b) ts s) = selectedTab s"
  by (induction ts arbitrary: s; simp)+

lemma setTabsDocShellState_frame [simp]:
  "data (setTabsDocShellState ts b s) = data s"
  "arrays (setTabsDocShellState ts b s) = arrays s"
  "currentView (setTabsDocShellState ts b s) = currentView s"
  "tabBrowserPanel (setTabsDocShellState ts b s) = tabBrowserPanel s"
  "pref_working (setTabsDocShellState ts b s) = pref_working s"
  "selectedTab (setTabsDocShellState ts b s) = selectedTab s"
  by (simp_all add: setTabsDocShellState_def)

lemma layoutTabs_frame [simp]:
  "data (layoutTabs ft act ts i s) = data s"
  "arrays (layoutTabs ft act ts i s) = arrays s"
  "currentView (layoutTabs ft act ts i s) = currentView s"
  "tabBrowserPanel (layoutTabs ft act ts i s) = tabBrowserPanel s"
  "pref_working (layoutTabs ft act ts i s) = pref_working s"
  "selectedTab (layoutTabs ft act ts i s) = selectedTab s"
  by (induction ts arbitrary: s i; simp)+

lemma activateSplitView_frame [simp]:
  "data (activateSplitView g act s) = data s"
  "arrays (activateSplitView g act s) = arrays s"
  "currentView (activateSplitView g act s) = indexOf (data s) g"
  "pref_working (activateSplitView g act s) = True"
  "selectedTab (activateSplitView g act s) = selectedTab s"
  by (simp_all add: activateSplitView_def applyFlexBoxLayout_def Let_def)

lemma deactivateSplitView_frame:
  assumes "deactivateSplitView s = Inr s'"
  shows "data s' = data s" "arrays s' = arrays s" "currentView s' = -1"
    "pref_working s' = False" "selectedTab s' = selectedTab s"
  using assms by (auto simp: deactivateSplitView_def Let_def split: option.splits)

lemma resetSplitView_frame:
  assumes "resetSplitView s = Inr s'"
  shows "data s' = data s" "arrays s' = arrays s" "currentView s' = -1"
    "pref_working s' = False" "selectedTab s' = selectedTab s"
  using assms by (auto simp: resetSplitView_def Let_def split: option.splits)

lemma removeGroup_frame:
  assumes "removeGroup i s = Inr s'"
  shows "data s' = splice1 i (data s)" "arrays s' = arrays s" "selectedTab s' = selectedTab s"
  using assms
  by (auto simp: removeGroup_def resetSplitView_frame split: if_splits sum.splits)

lemma updateSplitView_frame:
  assumes "updateSplitView t s = Inr s'"
  shows "data s' = data s" "arrays s' = arrays s" "selectedTab s' = selectedTab s"
  using assms
  by (auto simp: updateSplitView_def deactivateSplitView_frame
      split: if_splits sum.splits option.splits)

lemma removeTabFromGroup_length:
  assumes "removeTabFromGroup t i f s = Inr s'"
  shows "length (arrays s' a) \<le> length (arrays s a)" "selectedTab s' = selectedTab s"
  using assms
  by (auto simp: removeTabFromGroup_def Let_def length_splice1
      removeGroup_frame updateSplitView_frame split: if_splits option.splits)

lemma handleTabClose_length:
  assumes "handleTabClose t f s = Inr s'"
  shows "length (arrays s' a) \<le> length (arrays s a)" "selectedTab s' = selectedTab s"
  using assms
  by (auto simp: handleTabClose_def Let_def removeTabFromGroup_length split: if_splits)

subsection \<open>Closing the split\<close>

text \<open>
  \<open>unsplitCurrentView\<close> runs \<open>for (const tab of tabs)\<close> over the array of the active
  group while \<open>handleTabClose\<close> splices that same array. An array iterator keeps an index
  and, at each step, compares it with the current length of the array and reads the
  current element at that index; \<open>unsplit_loop a i\<close> is the loop at index \<open>i\<close> over the
  array at address \<open>a\<close>. It ends because no step makes the array longer.
\<close>

function unsplit_loop :: "addr \<Rightarrow> nat \<Rightarrow> state \<Rightarrow> error + state" where
  "unsplit_loop a i s =
     (if i < length (arrays s a)
      then (case handleTabClose (arrays s a ! i) True s of
              Inl e \<Rightarrow> Inl e
            | Inr s' \<Rightarrow> unsplit_loop a (i + 1) s')
      else Inr s)"
  by pat_completeness auto
termination
proof (relation "measure (\<lambda>(a, i, s). length (arrays s a) - i)")
  show "wf (measure (\<lambda>(a, i, s). length (arrays s a) - i))" by simp
next
  fix a i s s'
  assume "i < length (arrays s a)" and "handleTabClose (arrays s a ! i) True s = Inr s'"
  then show "((a, i + 1, s'), (a, i, s)) \<in> measure (\<lambda>(a, i, s). length (arrays s a) - i)"
    using handleTabClose_length(1) [of "arrays s a ! i" True s s' a] by simp
qed

declare unsplit_loop.simps [simp del]

definition unsplitCurrentView :: "state \<Rightarrow> error + state" where
  "unsplitCurrentView s =
     (let currentTab = selectedTab s
      in case at (data s) (currentView s) of
           None \<Rightarrow> Inl TypeError
         | Some g \<Rightarrow>
             (case unsplit_loop (tabs g) 0 s of
                Inl e \<Rightarrow> Inl e
              | Inr s' \<Rightarrow> Inr (s'\<lparr>selectedTab := currentTab\<rparr>)))"

subsection \<open>Predicates and call sequences of the claims\<close>

text \<open>\<open>currentView\<close> is \<open>-1\<close> or an index of \<open>_data\<close>.\<close>

definition currentView_ok :: "state \<Rightarrow> bool" where
  "currentView_ok s =
     (currentView s = -1 \<or> (0 \<le> currentView s \<and> currentView s < int (length (data s))))"

text \<open>The members of the group at index \<open>i\<close> are in no other group.\<close>

definition sole_group :: "state \<Rightarrow> nat \<Rightarrow> bool" where
  "sole_group s i =
     (\<forall>j<length (data s). j \<noteq> i \<longrightarrow>
        set (arrays s (tabs (data s ! j))) \<inter> set (arrays s (tabs (data s ! i))) = {})"

text \<open>The state in which \<open>removeTabFromGroup\<close> decides between \<open>removeGroup\<close> and
  \<open>updateSplitView\<close>: the tab is spliced out of the array at \<open>a\<close> and reset.\<close>

definition removed :: "tab \<Rightarrow> addr \<Rightarrow> bool \<Rightarrow> state \<Rightarrow> state" where
  "removed t a f s =
     resetTabState t f (s\<lparr>arrays := (arrays s)(a := remove1 t (arrays s a))\<rparr>)"

text \<open>A sequence of \<open>splitTabs\<close> calls, one per array; it stops at the first error.\<close>

fun splitTabs_calls :: "addr list \<Rightarrow> state \<Rightarrow> error + state" where
  "splitTabs_calls [] s = Inr s"
| "splitTabs_calls (a # as) s =
     (case splitTabs a s of Inl e \<Rightarrow> Inl e | Inr s' \<Rightarrow> splitTabs_calls as s')"

text \<open>No tab occurs in two of the lists.\<close>

fun pairwise_disjoint :: "tab list list \<Rightarrow> bool" where
  "pairwise_disjoint [] = True"
| "pairwise_disjoint (xs # xss) =
     ((\<forall>ys\<in>set xss. set xs \<inter> set ys = {}) \<and> pairwise_disjoint xss)"

subsection \<open>Example windows\<close>

definition fresh_container :: container where
  "fresh_container = \<lparr>attr_split = None, attr_split_active = None, attr_split_anim = None,
     deck_selected = False, click_listener = False, inline_style = no_style\<rparr>"

definition fresh_tab :: tabState where
  "fresh_tab = \<lparr>splitView = False, spliting = False, docShellIsActive = False,
     container = fresh_container\<rparr>"

definition fresh_panel :: panel where
  "fresh_panel = \<lparr>attr_split_view = None, panel_display = None,
     panel_flexDirection = None, panel_flexTemplateAreas = None\<rparr>"

text \<open>The arrays that the examples pass to \<open>splitTabs\<close>: \<open>[1, 2]\<close> at address 0, \<open>[3, 4]\<close>
  at 1, \<open>[5, 6, 7]\<close> at 2, \<open>[8, 9, 10, 11]\<close> at 3, \<open>[3, 1]\<close> at 4 and \<open>[3, 1, 5]\<close>
  at 5.\<close>

definition arrays0 :: "addr \<Rightarrow> tab list" where
  "arrays0 = (\<lambda>_. [])(0 := [1, 2], 1 := [3, 4], 2 := [5, 6, 7], 3 := [8, 9, 10, 11],
     4 := [3, 1], 5 := [3, 1, 5])"

text \<open>A window right after the constructor ran, with tab 1 selected.\<close>

definition window0 :: state where
  "window0 = constructor \<lparr>data = [], arrays = arrays0, currentView = 0,
     tabBrowserPanel = fresh_panel, pref_working = True, selectedTab = Some 1,
     tabState = (\<lambda>_. fresh_tab)\<rparr>"

text \<open>A window with the groups \<open>[1, 2]\<close> and \<open>[5, 6, 7]\<close>, the first one current.\<close>

definition window2 :: state where
  "window2 = \<lparr>data = [\<lparr>tabs = 0, flexType = Flex\<rparr>, \<lparr>tabs = 2, flexType = Flex\<rparr>],
     arrays = arrays0, currentView = 0,
     tabBrowserPanel = fresh_panel, pref_working = True, selectedTab = Some 1,
     tabState = (\<lambda>_. fresh_tab)\<rparr>"

subsection \<open>Facts about the array primitives\<close>

lemma findIndex_ge: "- 1 \<le> findIndex p xs"
  by (induction xs) (auto simp: Let_def)

lemma findIndex_less: "findIndex p xs < int (length xs)"
  by (induction xs) (auto simp: Let_def)

lemma findIndex_neg_iff: "findIndex p xs < 0 \<longleftrightarrow> (\<forall>x\<in>set xs. \<not> p x)"
  using findIndex_ge [of p] by (induction xs) (auto simp: Let_def)

lemma findIndex_nth: "0 \<le> findIndex p xs \<Longrightarrow> p (xs ! nat (findIndex p xs))"
proof (induction xs)
  case Nil
  then show ?case by simp
next
  case (Cons x xs)
  show ?case
  proof (cases "p x")
    case True
    then show ?thesis by simp
  next
    case False
    then have "0 \<le> findIndex p xs" using Cons.prems by (simp add: Let_def split: if_splits)
    then show ?thesis using False Cons.IH by (simp add: Let_def nat_add_distrib)
  qed
qed

lemma findIndex_first: "j < nat (findIndex p xs) \<Longrightarrow> \<not> p (xs ! j)"
proof (induction xs arbitrary: j)
  case Nil
  then show ?case by simp
next
  case (Cons x xs)
  then show ?case
    using findIndex_ge [of p xs]
    by (cases j) (auto simp: Let_def nat_add_distrib split: if_splits)
qed

lemma findIndex_eqI:
  assumes "i < length xs" "p (xs ! i)" "\<forall>j<i. \<not> p (xs ! j)"
  shows "findIndex p xs = int i"
proof -
  have "\<exists>x\<in>set xs. p x" using assms(1,2) nth_mem by blast
  then have "\<not> findIndex p xs < 0" unfolding findIndex_neg_iff by blast
  then have ge: "0 \<le> findIndex p xs" by simp
  have "\<not> nat (findIndex p xs) < i" using assms(3) findIndex_nth [OF ge] by blast
  moreover have "\<not> i < nat (findIndex p xs)" using findIndex_first [of i p xs] assms(2) by blast
  ultimately show ?thesis using ge by simp
qed

lemma find_at_findIndex: "find p xs = at xs (findIndex p xs)"
proof (induction xs)
  case Nil
  then show ?case by (simp add: at_def)
next
  case (Cons x xs)
  then show ?case
    using findIndex_ge [of p xs] findIndex_less [of p xs]
    by (auto simp: at_def Let_def nat_add_distrib)
qed

lemma find_None_findIndex: "find p xs = None \<longleftrightarrow> findIndex p xs < 0"
  by (auto simp: find_None_iff findIndex_neg_iff)

lemma indexOf_find:
  assumes "find p xs = Some g"
  shows "indexOf xs g = findIndex p xs"
proof -
  have ge: "0 \<le> findIndex p xs" and lt: "findIndex p xs < int (length xs)"
    and g: "g = xs ! nat (findIndex p xs)"
    using assms unfolding find_at_findIndex by (auto simp: at_def split: if_splits)
  have "p g" using findIndex_nth [OF ge] g by simp
  have "\<forall>j<nat (findIndex p xs). xs ! j \<noteq> g"
    using findIndex_first [of _ p xs] \<open>p g\<close> by metis
  then have "findIndex (\<lambda>y. y = g) xs = int (nat (findIndex p xs))"
    using ge lt g by (intro findIndex_eqI) auto
  then show ?thesis using ge by (simp add: indexOf_def)
qed

lemma at_Some_iff: "at xs i = Some x \<longleftrightarrow> 0 \<le> i \<and> i < int (length xs) \<and> xs ! nat i = x"
  by (auto simp: at_def)

lemma at_None_iff: "at xs i = None \<longleftrightarrow> i < 0 \<or> int (length xs) \<le> i"
  by (auto simp: at_def)

lemma at_int: "i < length xs \<Longrightarrow> at xs (int i) = Some (xs ! i)"
  by (simp add: at_def)

lemma splice1_nat: "splice1 (int i) xs = take i xs @ drop (Suc i) xs"
  by (cases "i \<le> length xs") (auto simp: splice1_def Let_def min_def)

lemma take_drop_remove1:
  "i < length xs \<Longrightarrow> xs ! i = x \<Longrightarrow> \<forall>j<i. xs ! j \<noteq> x \<Longrightarrow>
   take i xs @ drop (Suc i) xs = remove1 x xs"
proof (induction xs arbitrary: i)
  case Nil
  then show ?case by simp
next
  case (Cons y ys)
  show ?case
  proof (cases i)
    case 0
    then show ?thesis using Cons.prems by simp
  next
    case (Suc k)
    have "y \<noteq> x" using Cons.prems(3) Suc by force
    moreover have "take k ys @ drop (Suc k) ys = remove1 x ys"
      using Cons.prems Suc by (intro Cons.IH) auto
    ultimately show ?thesis using Suc by simp
  qed
qed

lemma splice1_indexOf:
  assumes "x \<in> set xs"
  shows "splice1 (indexOf xs x) xs = remove1 x xs"
proof -
  have "\<not> findIndex (\<lambda>y. y = x) xs < 0" unfolding findIndex_neg_iff using assms by blast
  then have ge: "0 \<le> indexOf xs x" by (simp add: indexOf_def)
  define i where "i = nat (indexOf xs x)"
  have i: "indexOf xs x = int i" using ge by (simp add: i_def)
  have "i < length xs" using findIndex_less [of "\<lambda>y. y = x" xs] i by (simp add: indexOf_def)
  moreover have "xs ! i = x"
    using findIndex_nth [of "\<lambda>y. y = x" xs] ge by (simp add: indexOf_def i_def)
  moreover have "\<forall>j<i. xs ! j \<noteq> x"
    using findIndex_first [of _ "\<lambda>y. y = x" xs] by (simp add: indexOf_def i_def)
  ultimately show ?thesis unfolding i splice1_nat by (rule take_drop_remove1)
qed

subsection \<open>What the loops write on a tab\<close>

lemma tabState_onTab: "tabState (onTab t f s) x = (if x = t then f (tabState s t) else tabState s x)"
  by (simp add: onTab_def)

lemma tabState_fold_onTab:
  assumes "\<And>c. f (f c) = f c"
  shows "tabState (fold (\<lambda>t. onTab t f) ts s) x =
         (if x \<in> set ts then f (tabState s x) else tabState s x)"
proof (induction ts arbitrary: s)
  case Nil
  then show ?case by simp
next
  case (Cons t ts)
  show ?case by (simp add: Cons.IH tabState_onTab assms)
qed

lemma resetTab_idem: "resetTab b (resetTab b c) = resetTab b c"
  by (simp add: resetTab_def Let_def no_style_def)

lemma docShellTab_idem: "docShellTab b (docShellTab b c) = docShellTab b c"
  by (simp add: docShellTab_def Let_def no_style_def)

lemma deactivateTab_idem: "deactivateTab (deactivateTab c) = deactivateTab c"
  by (simp add: deactivateTab_def resetContainerStyle_def)

lemma tabState_setTabsDocShellState:
  "tabState (setTabsDocShellState ts b s) x =
     (if x \<in> set ts then docShellTab b (tabState s x) else tabState s x)"
  unfolding setTabsDocShellState_def by (rule tabState_fold_onTab) (rule docShellTab_idem)

lemma tabState_fold_resetTabState:
  "tabState (fold (\<lambda>t. resetTabState t b) ts s) x =
     (if x \<in> set ts then resetTab b (tabState s x) else tabState s x)"
  unfolding resetTabState_def by (rule tabState_fold_onTab) (rule resetTab_idem)

lemma layoutTab_absorb: "layoutTab ft act t j (layoutTab ft act t i c) = layoutTab ft act t j c"
  by (cases ft) (simp add: layoutTab_def styleContainer_def Let_def)

lemma tabState_layoutTabs_notin:
  "x \<notin> set ts \<Longrightarrow> tabState (layoutTabs ft act ts i s) x = tabState s x"
  by (induction ts arbitrary: s i) (auto simp: tabState_onTab)

lemma tabState_layoutTabs_in:
  "x \<in> set ts \<Longrightarrow>
   \<exists>k. \<forall>s. tabState (layoutTabs ft act ts i s) x = layoutTab ft act x k (tabState s x)"
proof (induction ts arbitrary: i)
  case Nil
  then show ?case by simp
next
  case (Cons t ts)
  show ?case
  proof (cases "x \<in> set ts")
    case True
    from Cons.IH [OF True, of "Suc i"] obtain k where
      k: "\<And>s. tabState (layoutTabs ft act ts (Suc i) s) x = layoutTab ft act x k (tabState s x)"
      by blast
    have "\<forall>s. tabState (layoutTabs ft act (t # ts) i s) x = layoutTab ft act x k (tabState s x)"
      by (simp add: k tabState_onTab layoutTab_absorb)
    then show ?thesis by blast
  next
    case False
    then have "x = t" using Cons.prems by simp
    then have "\<forall>s. tabState (layoutTabs ft act (t # ts) i s) x = layoutTab ft act x i (tabState s x)"
      using False by (simp add: tabState_layoutTabs_notin tabState_onTab)
    then show ?thesis by blast
  qed
qed

subsection \<open>Activation and deactivation, tab by tab\<close>

lemma tabState_activateSplitView_notin:
  "x \<notin> set (arrays s (tabs g)) \<Longrightarrow> tabState (activateSplitView g act s) x = tabState s x"
  by (simp add: activateSplitView_def applyFlexBoxLayout_def Let_def
      tabState_setTabsDocShellState tabState_layoutTabs_notin)

lemma tabState_activateSplitView_in:
  assumes "x \<in> set ts"
  shows "\<exists>k. \<forall>s. arrays s (tabs g) = ts \<longrightarrow>
           tabState (activateSplitView g act s) x =
           docShellTab True (layoutTab (flexType g) act x k (tabState s x))"
proof -
  from tabState_layoutTabs_in [OF assms, of "flexType g" act 0] obtain k where
    k: "\<And>s. tabState (layoutTabs (flexType g) act ts 0 s) x =
            layoutTab (flexType g) act x k (tabState s x)"
    by blast
  have "\<forall>s. arrays s (tabs g) = ts \<longrightarrow>
           tabState (activateSplitView g act s) x =
           docShellTab True (layoutTab (flexType g) act x k (tabState s x))"
    using assms
    by (simp add: activateSplitView_def applyFlexBoxLayout_def Let_def
        tabState_setTabsDocShellState k)
  then show ?thesis by blast
qed

lemma tabBrowserPanel_activateSplitView:
  "tabBrowserPanel (activateSplitView g act s) =
     (tabBrowserPanel s)\<lparr>attr_split_view := Some ''true'', panel_flexDirection := Some ''column''\<rparr>"
  by (simp add: activateSplitView_def applyFlexBoxLayout_def Let_def)

lemma docShell_layout_absorb:
  "docShellTab True (layoutTab ft act x k (docShellTab True (layoutTab ft act x k c))) =
   docShellTab True (layoutTab ft act x k c)"
  by (cases ft) (simp add: docShellTab_def layoutTab_def styleContainer_def Let_def)

lemma activateSplitView_idem:
  "activateSplitView g act (activateSplitView g act s) = activateSplitView g act s"
proof (rule state.equality)
  show "tabState (activateSplitView g act (activateSplitView g act s)) =
        tabState (activateSplitView g act s)"
  proof
    fix x
    show "tabState (activateSplitView g act (activateSplitView g act s)) x =
          tabState (activateSplitView g act s) x"
    proof (cases "x \<in> set (arrays s (tabs g))")
      case True
      from tabState_activateSplitView_in [OF True, of g act] obtain k where
        k: "\<And>s'. arrays s' (tabs g) = arrays s (tabs g) \<Longrightarrow>
              tabState (activateSplitView g act s') x =
              docShellTab True (layoutTab (flexType g) act x k (tabState s' x))"
        by blast
      show ?thesis by (simp add: k docShell_layout_absorb)
    next
      case False
      then show ?thesis by (simp add: tabState_activateSplitView_notin)
    qed
  qed
qed (simp_all add: tabBrowserPanel_activateSplitView)

lemma activateSplitView_member:
  assumes "x \<in> set (arrays s (tabs g))"
  shows "docShellIsActive (tabState (activateSplitView g act s) x)"
    and "spliting (tabState (activateSplitView g act s) x)"
    and "splitView (tabState (activateSplitView g act s) x)"
    and "attr_split (container (tabState (activateSplitView g act s) x)) = Some ''true''"
    and "attr_split_active (container (tabState (activateSplitView g act s) x)) =
           (if Some x = act then Some ''true'' else None)"
proof -
  from tabState_activateSplitView_in [OF assms, of g act] obtain k where
    k: "tabState (activateSplitView g act s) x =
          docShellTab True (layoutTab (flexType g) act x k (tabState s x))"
    by blast
  show "docShellIsActive (tabState (activateSplitView g act s) x)"
    and "spliting (tabState (activateSplitView g act s) x)"
    and "splitView (tabState (activateSplitView g act s) x)"
    and "attr_split (container (tabState (activateSplitView g act s) x)) = Some ''true''"
    and "attr_split_active (container (tabState (activateSplitView g act s) x)) =
           (if Some x = act then Some ''true'' else None)"
    unfolding k
    by (cases "flexType g"; simp add: docShellTab_def layoutTab_def styleContainer_def Let_def)+
qed

lemma deactivateSplitView_Some:
  assumes "at (data s) (currentView s) = Some g"
  shows "\<exists>s'. deactivateSplitView s = Inr s' \<and> data s' = data s \<and> arrays s' = arrays s
           \<and> currentView s' = -1 \<and> \<not> pref_working s' \<and> selectedTab s' = selectedTab s
           \<and> (\<forall>x. tabState s' x =
                (if x \<in> set (arrays s (tabs g))
                 then docShellTab False (deactivateTab (tabState s x)) else tabState s x))"
  using assms
  by (simp add: deactivateSplitView_def Let_def tabState_setTabsDocShellState
      tabState_fold_onTab deactivateTab_idem)

lemma deactivateSplitView_None:
  "at (data s) (currentView s) = None \<Longrightarrow> deactivateSplitView s = Inl TypeError"
  by (simp add: deactivateSplitView_def)

lemma deactivated_tab:
  "\<not> docShellIsActive (docShellTab False (deactivateTab c))"
  "\<not> spliting (docShellTab False (deactivateTab c))"
  "attr_split (container (docShellTab False (deactivateTab c))) = None"
  "attr_split_active (container (docShellTab False (deactivateTab c))) = None"
  "inline_style (container (docShellTab False (deactivateTab c))) = no_style"
  by (simp_all add: docShellTab_def deactivateTab_def resetContainerStyle_def Let_def)

subsection \<open>The cases of \<open>updateSplitView\<close>\<close>

lemma updateSplitView_no_group:
  assumes "find (groupIncludes s v) (data s) = None"
  shows "updateSplitView v s = (if 0 \<le> currentView s then deactivateSplitView s else Inr s)"
  using assms by (simp add: updateSplitView_def)

lemma updateSplitView_same:
  assumes "find (groupIncludes s v) (data s) = Some g"
    and "at (data s) (currentView s) = Some cur" and "groupIncludes s v cur"
  shows "updateSplitView v s = Inr (activateSplitView g v s)"
proof -
  have "0 \<le> currentView s" using assms(2) by (simp add: at_Some_iff)
  then show ?thesis using assms by (simp add: updateSplitView_def)
qed

lemma updateSplitView_inactive:
  assumes "find (groupIncludes s v) (data s) = Some g" and "currentView s < 0"
  shows "updateSplitView v s = Inr (activateSplitView g v s)"
  using assms by (simp add: updateSplitView_def)

lemma updateSplitView_switch:
  assumes "find (groupIncludes s v) (data s) = Some g"
    and "at (data s) (currentView s) = Some cur" and "\<not> groupIncludes s v cur"
    and "deactivateSplitView s = Inr s1"
  shows "updateSplitView v s = Inr (activateSplitView g v s1)"
proof -
  have "0 \<le> currentView s" using assms(2) by (simp add: at_Some_iff)
  then show ?thesis using assms by (simp add: updateSplitView_def)
qed

lemma updateSplitView_stale:
  assumes "find (groupIncludes s v) (data s) = Some g"
    and "0 \<le> currentView s" and "at (data s) (currentView s) = None"
  shows "updateSplitView v s = Inl TypeError"
  using assms by (simp add: updateSplitView_def)

lemma currentView_ok_cases:
  "currentView_ok s \<longleftrightarrow> currentView s = -1 \<or> (\<exists>g. at (data s) (currentView s) = Some g)"
  by (auto simp: currentView_ok_def at_def)

lemma find_Some_currentView:
  assumes "find (groupIncludes s v) (data s) = Some g"
  shows "at (data s) (indexOf (data s) g) = Some g"
  using assms indexOf_find [OF assms] by (simp add: find_at_findIndex)

lemma updateSplitView_total:
  assumes "currentView_ok s"
  shows "\<exists>s'. updateSplitView v s = Inr s' \<and> currentView_ok s' \<and> data s' = data s
           \<and> arrays s' = arrays s \<and> selectedTab s' = selectedTab s"
proof (cases "find (groupIncludes s v) (data s)")
  case None
  show ?thesis
  proof (cases "0 \<le> currentView s")
    case True
    then obtain cur where cur: "at (data s) (currentView s) = Some cur"
      using assms by (auto simp: currentView_ok_cases)
    from deactivateSplitView_Some [OF cur] show ?thesis
      using True by (auto simp: updateSplitView_no_group [OF None] currentView_ok_def)
  next
    case False
    then show ?thesis using assms by (simp add: updateSplitView_no_group [OF None])
  qed
next
  case (Some g)
  have ok: "\<And>s1. data s1 = data s \<Longrightarrow> currentView_ok (activateSplitView g v s1)"
    using find_Some_currentView [OF Some] by (simp add: currentView_ok_cases)
  show ?thesis
  proof (cases "0 \<le> currentView s")
    case True
    then obtain cur where cur: "at (data s) (currentView s) = Some cur"
      using assms by (auto simp: currentView_ok_cases)
    show ?thesis
    proof (cases "groupIncludes s v cur")
      case True
      show ?thesis by (simp add: updateSplitView_same [OF Some cur True] ok)
    next
      case False
      from deactivateSplitView_Some [OF cur] obtain s1 where
        s1: "deactivateSplitView s = Inr s1" "data s1 = data s" "arrays s1 = arrays s"
          "selectedTab s1 = selectedTab s"
        by blast
      show ?thesis by (simp add: updateSplitView_switch [OF Some cur False s1(1)] ok s1)
    qed
  next
    case False
    then show ?thesis by (simp add: updateSplitView_inactive [OF Some] ok)
  qed
qed

lemma at_indexOf:
  assumes "g \<in> set xs"
  shows "at xs (indexOf xs g) = Some g"
proof -
  have "\<not> findIndex (\<lambda>y. y = g) xs < 0" unfolding findIndex_neg_iff using assms by blast
  then have ge: "0 \<le> findIndex (\<lambda>y. y = g) xs" by simp
  from findIndex_nth [OF ge] findIndex_less [of "\<lambda>y. y = g" xs] ge
  show ?thesis by (simp add: indexOf_def at_def)
qed

subsection \<open>Closing a tab of a group\<close>

lemma removed_frame [simp]:
  "data (removed t a f s) = data s"
  "arrays (removed t a f s) = (arrays s)(a := remove1 t (arrays s a))"
  "currentView (removed t a f s) = currentView s"
  "selectedTab (removed t a f s) = selectedTab s"
  "pref_working (removed t a f s) = pref_working s"
  by (simp_all add: removed_def)

lemma tabState_removed:
  "tabState (removed t a f s) x = (if x = t then resetTab f (tabState s t) else tabState s x)"
  by (simp add: removed_def resetTabState_def tabState_onTab)

lemma findIndex_member:
  assumes "findIndex (groupIncludes s (Some t)) (data s) = int i"
  shows "i < length (data s)" and "t \<in> set (arrays s (tabs (data s ! i)))"
    and "at (data s) (int i) = Some (data s ! i)"
proof -
  show i: "i < length (data s)"
    using findIndex_less [of "groupIncludes s (Some t)" "data s"] assms by simp
  show "t \<in> set (arrays s (tabs (data s ! i)))"
    using findIndex_nth [of "groupIncludes s (Some t)" "data s"] assms
    by (simp add: groupIncludes_def includes_tab_def)
  show "at (data s) (int i) = Some (data s ! i)" using i by (simp add: at_def)
qed

lemma handleTabClose_unfold:
  assumes "findIndex (groupIncludes s (Some t)) (data s) = int i"
  shows "handleTabClose t f s =
     (let a = tabs (data s ! i); s2 = removed t a f s
      in if length (arrays s2 a) < 2 then removeGroup (int i) s2
         else updateSplitView (Some (last (arrays s2 a))) s2)"
proof -
  note m = findIndex_member [OF assms]
  have last: "\<And>xs :: tab list. \<not> length xs < 2 \<Longrightarrow> at xs (int (length xs) - 1) = Some (last xs)"
    by (auto simp: at_def last_conv_nth nat_diff_distrib)
  show ?thesis
    using m(2)
    by (simp add: handleTabClose_def assms removeTabFromGroup_def m(3) Let_def removed_def
        splice1_indexOf last)
qed

lemma removeGroup_result:
  assumes "i < length (data s)"
  shows "\<exists>s'. removeGroup (int i) s = Inr s'
     \<and> data s' = take i (data s) @ drop (Suc i) (data s)
     \<and> arrays s' = arrays s \<and> selectedTab s' = selectedTab s
     \<and> currentView s' = (if currentView s = int i then - 1 else currentView s)"
proof (cases "currentView s = int i")
  case True
  then have "at (data s) (currentView s) = Some (data s ! i)" using assms by (simp add: at_def)
  then show ?thesis
    using True by (simp add: removeGroup_def resetSplitView_def Let_def splice1_nat)
next
  case False
  then show ?thesis by (simp add: removeGroup_def splice1_nat)
qed

lemma set_take_drop:
  assumes "g \<in> set (take i xs @ drop (Suc i) xs)"
  shows "\<exists>j<length xs. j \<noteq> i \<and> g = xs ! j"
proof -
  from assms consider "g \<in> set (take i xs)" | "g \<in> set (drop (Suc i) xs)" by auto
  then show ?thesis
  proof cases
    case 1
    then obtain k where "k < length (take i xs)" "take i xs ! k = g"
      by (auto simp: in_set_conv_nth)
    then have "k < length xs \<and> k \<noteq> i \<and> g = xs ! k" by simp
    then show ?thesis by blast
  next
    case 2
    then obtain k where "k < length (drop (Suc i) xs)" "drop (Suc i) xs ! k = g"
      by (auto simp: in_set_conv_nth)
    then have "Suc i + k < length xs \<and> Suc i + k \<noteq> i \<and> g = xs ! (Suc i + k)" by auto
    then show ?thesis by blast
  qed
qed

lemma sole_group_other:
  assumes "sole_group s i" and "j < length (data s)" and "j \<noteq> i"
    and "x \<in> set (arrays s (tabs (data s ! i)))"
  shows "tabs (data s ! j) \<noteq> tabs (data s ! i)" and "x \<notin> set (arrays s (tabs (data s ! j)))"
  using assms unfolding sole_group_def by auto

lemma removed_group_gone:
  assumes sole: "sole_group s i"
    and x: "x \<in> set (arrays s (tabs (data s ! i)))"
    and d: "data s' = take i (data s) @ drop (Suc i) (data s)"
    and a: "arrays s' = (arrays s)(tabs (data s ! i) := ys)"
  shows "find (groupIncludes s' (Some x)) (data s') = None"
proof -
  have "\<not> groupIncludes s' (Some x) g" if g: "g \<in> set (data s')" for g
  proof -
    from set_take_drop [of g i "data s"] g obtain j where
      j: "j < length (data s)" "j \<noteq> i" "g = data s ! j"
      unfolding d by blast
    have ne: "tabs (data s ! j) \<noteq> tabs (data s ! i)"
      by (rule sole_group_other(1) [OF sole j(1,2) x])
    have "x \<notin> set (arrays s (tabs (data s ! j)))"
      by (rule sole_group_other(2) [OF sole j(1,2) x])
    then show ?thesis by (simp add: groupIncludes_def includes_tab_def a j(3) ne)
  qed
  then have "\<forall>g\<in>set (data s'). \<not> groupIncludes s' (Some x) g" by blast
  then show ?thesis unfolding find_None_iff by blast
qed

lemma handleTabClose_last_pair:
  assumes fi: "findIndex (groupIncludes s (Some t)) (data s) = int i"
    and sole: "sole_group s i"
    and len: "length (arrays s (tabs (data s ! i))) = 2"
  shows "\<exists>s'. handleTabClose t f s = Inr s'
     \<and> data s' = take i (data s) @ drop (Suc i) (data s)
     \<and> arrays s' = (arrays s)(tabs (data s ! i) := remove1 t (arrays s (tabs (data s ! i))))
     \<and> currentView s' = (if currentView s = int i then - 1 else currentView s)
     \<and> selectedTab s' = selectedTab s
     \<and> (\<forall>x\<in>set (arrays s (tabs (data s ! i))).
           find (groupIncludes s' (Some x)) (data s') = None)"
proof -
  note m = findIndex_member [OF fi]
  define a where "a = tabs (data s ! i)"
  define s2 where "s2 = removed t a f s"
  have short: "length (arrays s2 a) < 2"
    using m(2) len by (simp add: s2_def a_def length_remove1)
  have close: "handleTabClose t f s = removeGroup (int i) s2"
    unfolding handleTabClose_unfold [OF fi] Let_def a_def [symmetric] s2_def [symmetric]
    using short by simp
  have "i < length (data s2)" using m(1) by (simp add: s2_def)
  from removeGroup_result [OF this] obtain s' where
    r: "removeGroup (int i) s2 = Inr s'" "data s' = take i (data s2) @ drop (Suc i) (data s2)"
      "arrays s' = arrays s2" "selectedTab s' = selectedTab s2"
      "currentView s' = (if currentView s2 = int i then - 1 else currentView s2)"
    by blast
  have s': "removeGroup (int i) s2 = Inr s'" "data s' = take i (data s) @ drop (Suc i) (data s)"
      "arrays s' = (arrays s)(a := remove1 t (arrays s a))" "selectedTab s' = selectedTab s"
      "currentView s' = (if currentView s = int i then - 1 else currentView s)"
    using r by (simp_all add: s2_def)
  have none: "\<forall>x\<in>set (arrays s a). find (groupIncludes s' (Some x)) (data s') = None"
    using removed_group_gone [OF sole _ s'(2)] s'(3) unfolding a_def by blast
  have "handleTabClose t f s = Inr s'" using close s'(1) by simp
  then show ?thesis
    using s'(2-5) none unfolding a_def by blast
qed

lemma handleTabClose_shrink:
  assumes fi: "findIndex (groupIncludes s (Some t)) (data s) = int i"
    and sole: "sole_group s i"
    and len: "3 \<le> length (arrays s (tabs (data s ! i)))"
    and ok: "currentView_ok s"
  shows "\<exists>s'. handleTabClose t f s = Inr s'
     \<and> data s' = data s
     \<and> arrays s' = (arrays s)(tabs (data s ! i) := remove1 t (arrays s (tabs (data s ! i))))
     \<and> currentView s' = int i
     \<and> selectedTab s' = selectedTab s
     \<and> pref_working s'
     \<and> (\<forall>x\<in>set (remove1 t (arrays s (tabs (data s ! i)))).
           docShellIsActive (tabState s' x) \<and> splitView (tabState s' x)
           \<and> attr_split_active (container (tabState s' x)) =
               (if x = last (remove1 t (arrays s (tabs (data s ! i)))) then Some ''true''
                else None))
     \<and> (\<forall>cur. at (data s) (currentView s) = Some cur \<and> currentView s \<noteq> int i \<longrightarrow>
           (\<forall>x\<in>set (arrays s (tabs cur)).
              tabState s' x = docShellTab False (deactivateTab (tabState s x))))"
proof -
  note m = findIndex_member [OF fi]
  define g where "g = data s ! i"
  define a where "a = tabs g"
  define ts' where "ts' = remove1 t (arrays s a)"
  define l where "l = last ts'"
  define s2 where "s2 = removed t a f s"
  have t_in: "t \<in> set (arrays s a)" using m(2) by (simp add: a_def g_def)
  have len': "2 \<le> length ts'"
    using len t_in by (simp add: ts'_def a_def g_def length_remove1)
  then have ne: "ts' \<noteq> []" by auto
  have l_in: "l \<in> set ts'" using ne by (simp add: l_def)
  have sub: "set ts' \<subseteq> set (arrays s a)" by (simp add: ts'_def set_remove1_subset)
  have frame2: "data s2 = data s" "arrays s2 = (arrays s)(a := ts')"
    "currentView s2 = currentView s" "selectedTab s2 = selectedTab s"
    by (simp_all add: s2_def ts'_def)
  have close: "handleTabClose t f s = updateSplitView (Some l) s2"
    unfolding handleTabClose_unfold [OF fi] Let_def g_def [symmetric] a_def [symmetric]
      s2_def [symmetric]
    using len' by (simp add: frame2 l_def)
  have other: "tabs (data s ! j) \<noteq> a \<and> x \<notin> set (arrays s2 (tabs (data s ! j)))"
    if "j < length (data s)" "j \<noteq> i" "x \<in> set (arrays s a)" for j x
  proof -
    have xi: "x \<in> set (arrays s (tabs (data s ! i)))" using that(3) by (simp add: a_def g_def)
    have n: "tabs (data s ! j) \<noteq> a"
      using sole_group_other(1) [OF sole that(1,2) xi] by (simp add: a_def g_def)
    have "x \<notin> set (arrays s (tabs (data s ! j)))"
      by (rule sole_group_other(2) [OF sole that(1,2) xi])
    then show ?thesis using n by (simp add: frame2)
  qed
  have inc: "groupIncludes s2 (Some l) g"
    using l_in by (simp add: groupIncludes_def includes_tab_def frame2 a_def)
  have fi2: "findIndex (groupIncludes s2 (Some l)) (data s2) = int i"
  proof (rule findIndex_eqI)
    show "i < length (data s2)" using m(1) by (simp add: frame2)
    show "groupIncludes s2 (Some l) (data s2 ! i)" using inc by (simp add: frame2 g_def)
    show "\<forall>j<i. \<not> groupIncludes s2 (Some l) (data s2 ! j)"
    proof (intro allI impI)
      fix j assume "j < i"
      then have "j < length (data s)" "j \<noteq> i" using m(1) by auto
      from other [OF this, of l] l_in sub
      show "\<not> groupIncludes s2 (Some l) (data s2 ! j)"
        by (auto simp: groupIncludes_def includes_tab_def frame2)
    qed
  qed
  have found: "find (groupIncludes s2 (Some l)) (data s2) = Some g"
    using m(1) by (simp add: find_at_findIndex fi2) (simp add: frame2 at_def g_def)
  have idx: "indexOf (data s) g = int i"
    using indexOf_find [OF found] fi2 by (simp add: frame2)
  have result: "\<exists>s3. updateSplitView (Some l) s2 = Inr (activateSplitView g (Some l) s3)
     \<and> data s3 = data s \<and> arrays s3 = arrays s2 \<and> selectedTab s3 = selectedTab s
     \<and> (\<forall>cur. at (data s) (currentView s) = Some cur \<and> currentView s \<noteq> int i \<longrightarrow>
           (\<forall>x\<in>set (arrays s (tabs cur)).
              tabState s3 x = docShellTab False (deactivateTab (tabState s x))))"
  proof (cases "currentView s = - 1")
    case True
    then have "currentView s2 < 0" by (simp add: frame2)
    from updateSplitView_inactive [OF found this] show ?thesis
      using True by (auto simp: frame2 at_def)
  next
    case False
    then obtain cur where cur: "at (data s) (currentView s) = Some cur"
      using ok by (auto simp: currentView_ok_cases)
    then have cur2: "at (data s2) (currentView s2) = Some cur" by (simp add: frame2)
    show ?thesis
    proof (cases "currentView s = int i")
      case True
      then have "cur = g" using cur m(3) by (simp add: g_def)
      then have "updateSplitView (Some l) s2 = Inr (activateSplitView g (Some l) s2)"
        using updateSplitView_same [OF found cur2] inc by simp
      then show ?thesis using True by (auto simp: frame2)
    next
      case False
      define j where "j = nat (currentView s)"
      have j: "j < length (data s)" "j \<noteq> i" "cur = data s ! j" "currentView s = int j"
        using cur False by (auto simp: at_Some_iff j_def)
      have notinc: "\<not> groupIncludes s2 (Some l) cur"
        using other [OF j(1,2), of l] l_in sub
        by (auto simp: groupIncludes_def includes_tab_def j(3))
      from deactivateSplitView_Some [OF cur2] obtain s3 where
        s3: "deactivateSplitView s2 = Inr s3" "data s3 = data s2" "arrays s3 = arrays s2"
          "selectedTab s3 = selectedTab s2"
          "\<And>x. tabState s3 x =
              (if x \<in> set (arrays s2 (tabs cur))
               then docShellTab False (deactivateTab (tabState s2 x)) else tabState s2 x)"
        by blast
      have same_arr: "arrays s2 (tabs cur) = arrays s (tabs cur)"
        using other [OF j(1,2) t_in] by (simp add: frame2 j(3))
      have "t \<notin> set (arrays s (tabs cur))"
        using other [OF j(1,2) t_in] same_arr by (simp add: j(3))
      then have "\<forall>x\<in>set (arrays s (tabs cur)).
          tabState s3 x = docShellTab False (deactivateTab (tabState s x))"
        by (auto simp: s3(5) same_arr s2_def tabState_removed)
      moreover have "updateSplitView (Some l) s2 = Inr (activateSplitView g (Some l) s3)"
        by (rule updateSplitView_switch [OF found cur2 notinc s3(1)])
      ultimately show ?thesis using cur s3(2-4) by (auto simp: frame2)
    qed
  qed
  then obtain s3 where
    s3: "updateSplitView (Some l) s2 = Inr (activateSplitView g (Some l) s3)"
      "data s3 = data s" "arrays s3 = arrays s2" "selectedTab s3 = selectedTab s"
      "\<forall>cur. at (data s) (currentView s) = Some cur \<and> currentView s \<noteq> int i \<longrightarrow>
           (\<forall>x\<in>set (arrays s (tabs cur)).
              tabState s3 x = docShellTab False (deactivateTab (tabState s x)))"
    by blast
  define s' where "s' = activateSplitView g (Some l) s3"
  have arr3: "arrays s3 (tabs g) = ts'" by (simp add: s3(3) frame2 a_def)
  have members: "\<forall>x\<in>set ts'.
           docShellIsActive (tabState s' x) \<and> splitView (tabState s' x)
           \<and> attr_split_active (container (tabState s' x)) =
               (if x = l then Some ''true'' else None)"
    unfolding s'_def using arr3 by (auto simp: activateSplitView_member)
  have others: "\<forall>cur. at (data s) (currentView s) = Some cur \<and> currentView s \<noteq> int i \<longrightarrow>
           (\<forall>x\<in>set (arrays s (tabs cur)).
              tabState s' x = docShellTab False (deactivateTab (tabState s x)))"
  proof (intro allI impI ballI)
    fix cur x
    assume c: "at (data s) (currentView s) = Some cur \<and> currentView s \<noteq> int i"
      and x: "x \<in> set (arrays s (tabs cur))"
    define j where "j = nat (currentView s)"
    have j: "j < length (data s)" "j \<noteq> i" "cur = data s ! j"
      using c by (auto simp: at_Some_iff j_def)
    have "x \<notin> set ts'"
    proof
      assume "x \<in> set ts'"
      then have "x \<in> set (arrays s a)" using sub by blast
      from other [OF j(1,2) this] x show False by (auto simp: frame2 j(3))
    qed
    then have "tabState s' x = tabState s3 x"
      unfolding s'_def using arr3 by (simp add: tabState_activateSplitView_notin)
    then show "tabState s' x = docShellTab False (deactivateTab (tabState s x))"
      using s3(5) c x by simp
  qed
  have "handleTabClose t f s = Inr s'" using close s3(1) by (simp add: s'_def)
  moreover have "data s' = data s" "arrays s' = (arrays s)(a := ts')" "currentView s' = int i"
    "selectedTab s' = selectedTab s" "pref_working s'"
    by (simp_all add: s'_def s3 frame2 idx)
  ultimately show ?thesis
    using members others unfolding l_def ts'_def a_def g_def by blast
qed

lemma handleTabClose_pair_result:
  assumes fi: "findIndex (groupIncludes s (Some t)) (data s) = int i"
    and len: "length (arrays s (tabs (data s ! i))) = 2"
  shows "\<exists>s'. handleTabClose t f s = Inr s'
     \<and> data s' = take i (data s) @ drop (Suc i) (data s)
     \<and> arrays s' = (arrays s)(tabs (data s ! i) := remove1 t (arrays s (tabs (data s ! i))))
     \<and> currentView s' = (if currentView s = int i then - 1 else currentView s)"
proof -
  note m = findIndex_member [OF fi]
  define a where "a = tabs (data s ! i)"
  define s2 where "s2 = removed t a f s"
  have short: "length (arrays s2 a) < 2"
    using m(2) len by (simp add: s2_def a_def length_remove1)
  have close: "handleTabClose t f s = removeGroup (int i) s2"
    unfolding handleTabClose_unfold [OF fi] Let_def a_def [symmetric] s2_def [symmetric]
    using short by simp
  have "i < length (data s2)" using m(1) by (simp add: s2_def)
  from removeGroup_result [OF this] obtain s' where
    r: "removeGroup (int i) s2 = Inr s'" "data s' = take i (data s2) @ drop (Suc i) (data s2)"
      "arrays s' = arrays s2"
      "currentView s' = (if currentView s2 = int i then - 1 else currentView s2)"
    by blast
  have "handleTabClose t f s = Inr s'" using close r(1) by simp
  moreover have "data s' = take i (data s) @ drop (Suc i) (data s)"
    "arrays s' = (arrays s)(a := remove1 t (arrays s a))"
    "currentView s' = (if currentView s = int i then - 1 else currentView s)"
    using r(2-4) by (simp_all add: s2_def)
  ultimately show ?thesis unfolding a_def by blast
qed

subsection \<open>Splitting\<close>

lemma updateSplitView_activates:
  assumes found: "find (groupIncludes s v) (data s) = Some g" and ok: "currentView_ok s"
  shows "\<exists>s3. updateSplitView v s = Inr (activateSplitView g v s3)
     \<and> data s3 = data s \<and> arrays s3 = arrays s \<and> selectedTab s3 = selectedTab s"
proof (cases "0 \<le> currentView s")
  case True
  then obtain cur where cur: "at (data s) (currentView s) = Some cur"
    using ok by (auto simp: currentView_ok_cases)
  show ?thesis
  proof (cases "groupIncludes s v cur")
    case True
    from updateSplitView_same [OF found cur True] show ?thesis by blast
  next
    case False
    from deactivateSplitView_Some [OF cur] obtain s1 where
      s1: "deactivateSplitView s = Inr s1" "data s1 = data s" "arrays s1 = arrays s"
        "selectedTab s1 = selectedTab s"
      by blast
    from updateSplitView_switch [OF found cur False s1(1)] s1(2-4) show ?thesis by blast
  qed
next
  case False
  then have "currentView s < 0" by simp
  from updateSplitView_inactive [OF found this] show ?thesis by blast
qed

lemma updateSplitView_result:
  assumes fi: "findIndex (groupIncludes s v) (data s) = int i" and ok: "currentView_ok s"
  shows "\<exists>s'. updateSplitView v s = Inr s' \<and> data s' = data s \<and> arrays s' = arrays s
     \<and> selectedTab s' = selectedTab s \<and> currentView s' = int i \<and> pref_working s'
     \<and> (\<forall>x\<in>set (arrays s (tabs (data s ! i))).
           docShellIsActive (tabState s' x) \<and> splitView (tabState s' x)
           \<and> attr_split_active (container (tabState s' x)) =
                (if Some x = v then Some ''true'' else None))"
proof -
  have i: "i < length (data s)"
    using findIndex_less [of "groupIncludes s v" "data s"] fi by simp
  then have found: "find (groupIncludes s v) (data s) = Some (data s ! i)"
    by (simp add: find_at_findIndex fi at_def)
  from updateSplitView_activates [OF found ok] obtain s3 where
    s3: "updateSplitView v s = Inr (activateSplitView (data s ! i) v s3)"
      "data s3 = data s" "arrays s3 = arrays s" "selectedTab s3 = selectedTab s"
    by blast
  have "indexOf (data s3) (data s ! i) = int i"
    using indexOf_find [OF found] fi by (simp add: s3(2))
  then show ?thesis
    using s3 by (auto simp: activateSplitView_member)
qed

lemma find_Some_mem: "find p xs = Some x \<Longrightarrow> x \<in> set xs \<and> p x"
  by (auto simp: find_Some_iff)

lemma splitTabs_push:
  assumes dis: "\<forall>x\<in>set (arrays s a). \<forall>g\<in>set (data s). x \<notin> set (arrays s (tabs g))"
    and ok: "currentView_ok s"
  shows "\<exists>s'. splitTabs a s = Inr s'
     \<and> data s' = data s @ [\<lparr>tabs = a, flexType = Flex\<rparr>]
     \<and> arrays s' = arrays s \<and> currentView_ok s'
     \<and> selectedTab s' = at (arrays s a) 0
     \<and> currentView s' = (if arrays s a = [] then - 1 else int (length (data s)))
     \<and> (\<forall>x\<in>set (arrays s a). splitView (tabState s' x) \<and> docShellIsActive (tabState s' x))"
proof -
  define ng :: group where "ng = \<lparr>tabs = a, flexType = Flex\<rparr>"
  define s2 where "s2 = s\<lparr>data := data s @ [ng], selectedTab := at (arrays s a) 0\<rparr>"
  have frame2: "data s2 = data s @ [ng]" "arrays s2 = arrays s" "currentView s2 = currentView s"
    "selectedTab s2 = at (arrays s a) 0"
    by (simp_all add: s2_def)
  have ok2: "currentView_ok s2" using ok by (auto simp: currentView_ok_def frame2)
  have nogroup: "findIndex (groupIncludes s (Some x)) (data s) < 0" if "x \<in> set (arrays s a)" for x
    using dis that by (simp add: findIndex_neg_iff groupIncludes_def includes_tab_def)
  have "\<not> (find (\<lambda>tab. splitView (tabState s tab)) (arrays s a) \<noteq> None
         \<and> 0 \<le> findIndex (groupIncludes s (find (\<lambda>tab. splitView (tabState s tab)) (arrays s a)))
               (data s))"
  proof (cases "find (\<lambda>tab. splitView (tabState s tab)) (arrays s a)")
    case None
    then show ?thesis by simp
  next
    case (Some t)
    then have "t \<in> set (arrays s a)" using find_Some_mem by fastforce
    from nogroup [OF this] show ?thesis by (simp add: Some)
  qed
  then have split: "splitTabs a s = updateSplitView (at (arrays s a) 0) s2"
    unfolding splitTabs_def Let_def s2_def ng_def by (simp only: if_False)
  show ?thesis
  proof (cases "arrays s a")
    case Nil
    have "find (groupIncludes s2 None) (data s2) = None"
      by (simp add: find_None_iff groupIncludes_def includes_tab_def)
    then have u: "updateSplitView None s2 =
        (if 0 \<le> currentView s2 then deactivateSplitView s2 else Inr s2)"
      by (rule updateSplitView_no_group)
    show ?thesis
    proof (cases "0 \<le> currentView s2")
      case True
      then obtain cur where "at (data s2) (currentView s2) = Some cur"
        using ok2 by (auto simp: currentView_ok_cases)
      from deactivateSplitView_Some [OF this] obtain s' where
        "deactivateSplitView s2 = Inr s'" "data s' = data s2" "arrays s' = arrays s2"
        "currentView s' = - 1" "selectedTab s' = selectedTab s2"
        by blast
      then show ?thesis
        using True Nil by (simp add: split u frame2 ng_def currentView_ok_def at_def)
    next
      case False
      then have "currentView s = - 1" using ok by (auto simp: currentView_ok_def frame2)
      then show ?thesis
        using False Nil by (simp add: split u frame2 ng_def currentView_ok_def at_def)
    qed
  next
    case (Cons x xs)
    then have x: "x \<in> set (arrays s a)" and at0: "at (arrays s a) 0 = Some x"
      by (simp_all add: at_def)
    have fi: "findIndex (groupIncludes s2 (Some x)) (data s2) = int (length (data s))"
    proof (rule findIndex_eqI)
      show "length (data s) < length (data s2)" by (simp add: frame2)
      show "groupIncludes s2 (Some x) (data s2 ! length (data s))"
        using x by (simp add: frame2 groupIncludes_def includes_tab_def ng_def)
      show "\<forall>j<length (data s). \<not> groupIncludes s2 (Some x) (data s2 ! j)"
        using dis x by (simp add: frame2 groupIncludes_def includes_tab_def nth_append)
    qed
    from updateSplitView_result [OF fi ok2] obtain s' where
      s': "updateSplitView (Some x) s2 = Inr s'" "data s' = data s2" "arrays s' = arrays s2"
        "selectedTab s' = selectedTab s2" "currentView s' = int (length (data s))"
        "\<forall>y\<in>set (arrays s2 (tabs (data s2 ! length (data s)))).
           docShellIsActive (tabState s' y) \<and> splitView (tabState s' y)
           \<and> attr_split_active (container (tabState s' y)) =
                (if Some y = Some x then Some ''true'' else None)"
      by blast
    have "\<forall>y\<in>set (arrays s a). splitView (tabState s' y) \<and> docShellIsActive (tabState s' y)"
      using s'(6) by (simp add: frame2 ng_def)
    moreover have "splitTabs a s = Inr s'" using s'(1) by (simp add: split at0)
    moreover have "data s' = data s @ [\<lparr>tabs = a, flexType = Flex\<rparr>]" "arrays s' = arrays s"
      "selectedTab s' = at (arrays s a) 0"
      using s'(2-4) by (simp_all add: frame2 ng_def)
    moreover have "currentView_ok s'"
      using s'(2,5) by (simp add: currentView_ok_def frame2)
    moreover have "currentView s' = (if arrays s a = [] then - 1 else int (length (data s)))"
      using s'(5) Cons by simp
    ultimately show ?thesis by blast
  qed
qed

lemma splitTabs_calls_append:
  assumes "currentView_ok s"
    and "pairwise_disjoint (map (arrays s) as)"
    and "\<forall>a\<in>set as. \<forall>g\<in>set (data s). set (arrays s a) \<inter> set (arrays s (tabs g)) = {}"
  shows "\<exists>s'. splitTabs_calls as s = Inr s'
     \<and> data s' = data s @ map (\<lambda>a. \<lparr>tabs = a, flexType = Flex\<rparr>) as
     \<and> arrays s' = arrays s \<and> currentView_ok s'"
  using assms
proof (induction as arbitrary: s)
  case Nil
  then show ?case by simp
next
  case (Cons a as)
  have "\<forall>x\<in>set (arrays s a). \<forall>g\<in>set (data s). x \<notin> set (arrays s (tabs g))"
    using Cons.prems(3) by auto
  from splitTabs_push [OF this Cons.prems(1)] obtain s1 where
    s1: "splitTabs a s = Inr s1" "data s1 = data s @ [\<lparr>tabs = a, flexType = Flex\<rparr>]"
      "arrays s1 = arrays s" "currentView_ok s1"
    by blast
  have pd: "pairwise_disjoint (map (arrays s1) as)"
    using Cons.prems(2) by (simp add: s1(3))
  have dis: "\<forall>b\<in>set as. \<forall>g\<in>set (data s1).
      set (arrays s1 b) \<inter> set (arrays s1 (tabs g)) = {}"
    using Cons.prems(2,3) by (auto simp: s1(2,3))
  from Cons.IH [OF s1(4) pd dis] obtain s' where
    s': "splitTabs_calls as s1 = Inr s'"
      "data s' = data s1 @ map (\<lambda>a. \<lparr>tabs = a, flexType = Flex\<rparr>) as"
      "arrays s' = arrays s1" "currentView_ok s'"
    by blast
  show ?case using s1(1) s' by (simp add: s1(2,3))
qed

subsection \<open>The \<open>splitView\<close> flag of a tab\<close>

lemma splitView_deactivated: "splitView (docShellTab b (deactivateTab c)) = splitView c"
  by (simp add: docShellTab_def deactivateTab_def Let_def)

lemma deactivateSplitView_flag:
  assumes "deactivateSplitView s = Inr s'"
  shows "splitView (tabState s' x) = splitView (tabState s x)"
proof -
  from assms obtain g where g: "at (data s) (currentView s) = Some g"
    by (cases "at (data s) (currentView s)") (simp_all add: deactivateSplitView_def)
  from deactivateSplitView_Some [OF g] assms show ?thesis
    by (auto simp: splitView_deactivated)
qed

lemma activateSplitView_flag:
  "splitView (tabState (activateSplitView g v s) x) =
     (x \<in> set (arrays s (tabs g)) \<or> splitView (tabState s x))"
  by (cases "x \<in> set (arrays s (tabs g))")
     (simp_all add: activateSplitView_member tabState_activateSplitView_notin)

lemma updateSplitView_keeps_flag:
  assumes "updateSplitView v s = Inr s'" and "splitView (tabState s x)"
  shows "splitView (tabState s' x)"
  using assms
  by (auto simp: updateSplitView_def activateSplitView_flag deactivateSplitView_flag
      split: option.splits if_splits sum.splits)

lemma handleTabClose_last_pair_tabs:
  assumes fi: "findIndex (groupIncludes s (Some t)) (data s) = int i"
    and len: "length (arrays s (tabs (data s ! i))) = 2"
    and cv: "currentView s \<noteq> int i"
    and res: "handleTabClose t f s = Inr s'"
  shows "tabState s' x = (if x = t then resetTab f (tabState s t) else tabState s x)"
proof -
  note m = findIndex_member [OF fi]
  define a where "a = tabs (data s ! i)"
  define s2 where "s2 = removed t a f s"
  have short: "length (arrays s2 a) < 2"
    using m(2) len by (simp add: s2_def a_def length_remove1)
  have "handleTabClose t f s = removeGroup (int i) s2"
    unfolding handleTabClose_unfold [OF fi] Let_def a_def [symmetric] s2_def [symmetric]
    using short by simp
  moreover have "currentView s2 \<noteq> int i" using cv by (simp add: s2_def)
  ultimately have "s' = s2\<lparr>data := splice1 (int i) (data s2)\<rparr>"
    using res by (simp add: removeGroup_def)
  then show ?thesis by (simp add: s2_def tabState_removed)
qed

lemma splitTabs_new_group:
  assumes gate: "\<forall>t. find (\<lambda>tab. splitView (tabState s tab)) (arrays s a) = Some t \<longrightarrow>
                  findIndex (groupIncludes s (Some t)) (data s) < 0"
    and ok: "currentView_ok s"
  shows "\<exists>s'. splitTabs a s = Inr s'
     \<and> data s' = data s @ [\<lparr>tabs = a, flexType = Flex\<rparr>]
     \<and> arrays s' = arrays s \<and> currentView_ok s'"
proof -
  define s2 where
    "s2 = s\<lparr>data := data s @ [\<lparr>tabs = a, flexType = Flex\<rparr>], selectedTab := at (arrays s a) 0\<rparr>"
  have "\<not> (find (\<lambda>tab. splitView (tabState s tab)) (arrays s a) \<noteq> None
         \<and> 0 \<le> findIndex (groupIncludes s (find (\<lambda>tab. splitView (tabState s tab)) (arrays s a)))
               (data s))"
    using gate by (cases "find (\<lambda>tab. splitView (tabState s tab)) (arrays s a)") auto
  then have split: "splitTabs a s = updateSplitView (at (arrays s a) 0) s2"
    unfolding splitTabs_def Let_def s2_def by (simp only: if_False)
  have "currentView_ok s2" using ok by (auto simp: currentView_ok_def s2_def)
  from updateSplitView_total [OF this, of "at (arrays s a) 0"] show ?thesis
    by (auto simp: split s2_def)
qed

lemma unsplitCurrentView_selectedTab:
  "unsplitCurrentView s = Inr s' \<Longrightarrow> selectedTab s' = selectedTab s"
  by (auto simp: unsplitCurrentView_def split: option.splits sum.splits)

subsection \<open>Facts about the example windows\<close>

lemmas window_simps = window0_def window2_def constructor_def arrays0_def
  groupIncludes_def includes_tab_def at_def

lemma sole_group_window2: "sole_group window2 0" "sole_group window2 1"
  by (auto simp: sole_group_def window_simps less_Suc_eq nth_Cons')

lemma window0_facts:
  "currentView_ok window0" "data window0 = []" "arrays window0 = arrays0"
  "currentView window0 = - 1" "selectedTab window0 = Some 1"
  by (simp_all add: window0_def constructor_def currentView_ok_def)

lemma arrays0_at:
  "arrays0 0 = [1, 2]" "arrays0 (Suc 0) = [3, 4]" "arrays0 2 = [5, 6, 7]"
  "arrays0 3 = [8, 9, 10, 11]" "arrays0 4 = [3, 1]" "arrays0 5 = [3, 1, 5]"
  by (simp_all add: arrays0_def)

text \<open>From the fresh window, \<open>splitTabs([1, 2])\<close> and then \<open>splitTabs([3, 4])\<close>: two groups,
  the second one current, its tabs flagged.\<close>

lemma two_splits:
  "\<exists>s1 s2. splitTabs 0 window0 = Inr s1 \<and> splitTabs 1 s1 = Inr s2
     \<and> data s2 = [\<lparr>tabs = 0, flexType = Flex\<rparr>, \<lparr>tabs = 1, flexType = Flex\<rparr>]
     \<and> arrays s2 = arrays0 \<and> currentView s2 = 1 \<and> currentView_ok s2
     \<and> splitView (tabState s2 3) \<and> splitView (tabState s2 4)"
proof -
  have "\<forall>x\<in>set (arrays window0 0). \<forall>g\<in>set (data window0). x \<notin> set (arrays window0 (tabs g))"
    by (simp add: window0_facts)
  from splitTabs_push [OF this window0_facts(1)] obtain s1 where
    s1: "splitTabs 0 window0 = Inr s1" "data s1 = [\<lparr>tabs = 0, flexType = Flex\<rparr>]"
      "arrays s1 = arrays0" "currentView_ok s1"
    by (auto simp: window0_facts)
  have "\<forall>x\<in>set (arrays s1 1). \<forall>g\<in>set (data s1). x \<notin> set (arrays s1 (tabs g))"
    by (simp add: s1 arrays0_at)
  from splitTabs_push [OF this s1(4)] obtain s2 where
    s2: "splitTabs 1 s1 = Inr s2"
      "data s2 = data s1 @ [\<lparr>tabs = 1, flexType = Flex\<rparr>]"
      "arrays s2 = arrays s1" "currentView_ok s2"
      "currentView s2 = (if arrays s1 1 = [] then - 1 else int (length (data s1)))"
      "\<forall>x\<in>set (arrays s1 1). splitView (tabState s2 x) \<and> docShellIsActive (tabState s2 x)"
    by blast
  have "data s2 = [\<lparr>tabs = 0, flexType = Flex\<rparr>, \<lparr>tabs = 1, flexType = Flex\<rparr>]"
    "arrays s2 = arrays0" "currentView s2 = 1"
    "splitView (tabState s2 3)" "splitView (tabState s2 4)"
    using s2(2,3,5,6) by (simp_all add: s1 arrays0_at)
  with s1(1) s2(1,4) show ?thesis by blast
qed

text \<open>From the fresh window: \<open>splitTabs([1, 2])\<close>, \<open>splitTabs([3, 4])\<close>, tab 1 is selected
  (\<open>updateSplitView(1)\<close>), tab 4 is closed. The group \<open>[3, 4]\<close> is gone, the group \<open>[1, 2]\<close>
  is current, and tab 3 keeps its \<open>splitView\<close> flag without being in a group.\<close>

lemma stale_flag_window:
  "\<exists>s1 s2 s3 s4. splitTabs 0 window0 = Inr s1 \<and> splitTabs 1 s1 = Inr s2
     \<and> updateSplitView (Some 1) s2 = Inr s3 \<and> handleTabClose 4 False s3 = Inr s4
     \<and> data s4 = [\<lparr>tabs = 0, flexType = Flex\<rparr>] \<and> currentView s4 = 0
     \<and> currentView_ok s4
     \<and> arrays s4 = arrays0(Suc 0 := [3])
     \<and> splitView (tabState s4 3)"
proof -
  from two_splits obtain s1 s2 where
    s12: "splitTabs 0 window0 = Inr s1" "splitTabs 1 s1 = Inr s2"
    and s2: "data s2 = [\<lparr>tabs = 0, flexType = Flex\<rparr>, \<lparr>tabs = 1, flexType = Flex\<rparr>]"
      "arrays s2 = arrays0" "currentView s2 = 1" "currentView_ok s2"
      "splitView (tabState s2 3)"
    by blast
  have "findIndex (groupIncludes s2 (Some 1)) (data s2) = int 0"
    by (simp add: groupIncludes_def includes_tab_def s2 arrays0_at)
  from updateSplitView_result [OF this s2(4)] obtain s3 where
    u: "updateSplitView (Some 1) s2 = Inr s3"
    and s3: "data s3 = data s2" "arrays s3 = arrays s2" "currentView s3 = int 0"
    by blast
  have flag3: "splitView (tabState s3 3)"
    by (rule updateSplitView_keeps_flag [OF u s2(5)])
  have fi: "findIndex (groupIncludes s3 (Some 4)) (data s3) = int 1"
    by (simp add: groupIncludes_def includes_tab_def s3 s2 arrays0_at)
  have len: "length (arrays s3 (tabs (data s3 ! 1))) = 2"
    by (simp add: s3 s2 arrays0_at)
  from handleTabClose_pair_result [OF fi len, of False] obtain s4 where
    h: "handleTabClose 4 False s3 = Inr s4"
    and s4: "data s4 = take 1 (data s3) @ drop (Suc 1) (data s3)"
      "arrays s4 = (arrays s3)(tabs (data s3 ! 1) := remove1 4 (arrays s3 (tabs (data s3 ! 1))))"
      "currentView s4 = (if currentView s3 = int 1 then - 1 else currentView s3)"
    by blast
  have s4': "data s4 = [\<lparr>tabs = 0, flexType = Flex\<rparr>]" "currentView s4 = 0"
    "arrays s4 = arrays0(Suc 0 := [3])"
    using s4 by (simp_all add: s3 s2 arrays0_at)
  have "currentView s3 \<noteq> int 1" by (simp add: s3)
  from handleTabClose_last_pair_tabs [OF fi len this h, of 3] flag3
  have flag4: "splitView (tabState s4 3)" by simp
  have "currentView_ok s4" by (simp add: currentView_ok_def s4')
  then show ?thesis using s12 u h s4' flag4 by blast
qed

lemma arrays_after_close_4:
  "(arrays0(Suc 0 := [3])) 0 = [1, 2]" "(arrays0(Suc 0 := [3])) 4 = [3, 1]"
  "(arrays0(Suc 0 := [3])) 5 = [3, 1, 5]"
  by (simp_all add: arrays0_at)

text \<open>There, \<open>splitTabs\<close> on an array that starts with tab 3 pushes a group.\<close>

lemma stale_flag_split:
  assumes "data s4 = [\<lparr>tabs = 0, flexType = Flex\<rparr>]" and "currentView_ok s4"
    and "arrays s4 = arrays0(Suc 0 := [3])" and "splitView (tabState s4 3)"
    and "hd (arrays s4 a) = 3" and "arrays s4 a \<noteq> []"
  shows "\<exists>s5. splitTabs a s4 = Inr s5
     \<and> data s5 = [\<lparr>tabs = 0, flexType = Flex\<rparr>, \<lparr>tabs = a, flexType = Flex\<rparr>]
     \<and> arrays s5 = arrays s4 \<and> currentView_ok s5"
proof -
  from assms(5,6) obtain xs where xs: "arrays s4 a = 3 # xs" by (cases "arrays s4 a") auto
  have f: "find (\<lambda>tab. splitView (tabState s4 tab)) (arrays s4 a) = Some 3"
    using assms(4) by (simp add: xs)
  have n: "findIndex (groupIncludes s4 (Some 3)) (data s4) < 0"
    by (simp add: assms(1,3) groupIncludes_def includes_tab_def arrays0_at)
  have gate: "\<forall>t. find (\<lambda>tab. splitView (tabState s4 tab)) (arrays s4 a) = Some t \<longrightarrow>
      findIndex (groupIncludes s4 (Some t)) (data s4) < 0"
    using n by (simp add: f)
  from splitTabs_new_group [OF gate assms(2)] show ?thesis by (simp add: assms(1))
qed

text \<open>From the fresh window, \<open>splitTabs(xs)\<close> and then \<open>splitTabs(ys)\<close> for two of the
  example arrays without a common tab: two groups, the second one current, its tabs with
  an active docshell.\<close>

lemma two_disjoint_splits:
  assumes "set (arrays0 a) \<inter> set (arrays0 b) = {}" and "arrays0 b \<noteq> []"
  shows "\<exists>s1 s2. splitTabs a window0 = Inr s1 \<and> splitTabs b s1 = Inr s2
     \<and> data s2 = [\<lparr>tabs = a, flexType = Flex\<rparr>, \<lparr>tabs = b, flexType = Flex\<rparr>]
     \<and> arrays s2 = arrays0 \<and> currentView s2 = 1 \<and> currentView_ok s2
     \<and> (\<forall>x\<in>set (arrays0 b). docShellIsActive (tabState s2 x))"
proof -
  have "\<forall>x\<in>set (arrays window0 a). \<forall>g\<in>set (data window0). x \<notin> set (arrays window0 (tabs g))"
    by (simp add: window0_facts)
  from splitTabs_push [OF this window0_facts(1)] obtain s1 where
    s1: "splitTabs a window0 = Inr s1" "data s1 = [\<lparr>tabs = a, flexType = Flex\<rparr>]"
      "arrays s1 = arrays0" "currentView_ok s1"
    by (auto simp: window0_facts)
  have "\<forall>x\<in>set (arrays s1 b). \<forall>g\<in>set (data s1). x \<notin> set (arrays s1 (tabs g))"
    using assms(1) by (auto simp: s1)
  from splitTabs_push [OF this s1(4)] obtain s2 where
    s2: "splitTabs b s1 = Inr s2"
      "data s2 = data s1 @ [\<lparr>tabs = b, flexType = Flex\<rparr>]"
      "arrays s2 = arrays s1" "currentView_ok s2"
      "currentView s2 = (if arrays s1 b = [] then - 1 else int (length (data s1)))"
      "\<forall>x\<in>set (arrays s1 b). splitView (tabState s2 x) \<and> docShellIsActive (tabState s2 x)"
    by blast
  have "data s2 = [\<lparr>tabs = a, flexType = Flex\<rparr>, \<lparr>tabs = b, flexType = Flex\<rparr>]"
    "arrays s2 = arrays0" "currentView s2 = 1"
    "\<forall>x\<in>set (arrays0 b). docShellIsActive (tabState s2 x)"
    using s2(2,3,5,6) assms(2) by (simp_all add: s1)
  with s1(1) s2(1,4) show ?thesis by blast
qed

text \<open>From that window: \<open>splitTabs([3, 1, 5])\<close>, tab 2 is selected (\<open>updateSplitView(2)\<close>),
  tab 5 is closed. The groups are \<open>[1, 2]\<close> and \<open>[3, 1, 5]\<close>, the first one current; the
  close calls \<open>updateSplitView(1)\<close>, which finds the group \<open>[1, 2]\<close>.\<close>

lemma close_in_overlapping_group:
  "\<exists>s1 s2 s3 s4 s5 s6 s7. splitTabs 0 window0 = Inr s1 \<and> splitTabs 1 s1 = Inr s2
      \<and> updateSplitView (Some 1) s2 = Inr s3 \<and> handleTabClose 4 False s3 = Inr s4
      \<and> splitTabs 5 s4 = Inr s5 \<and> updateSplitView (Some 2) s5 = Inr s6
      \<and> data s6 = [\<lparr>tabs = 0, flexType = Flex\<rparr>, \<lparr>tabs = 5, flexType = Flex\<rparr>]
      \<and> arrays s6 0 = [1, 2] \<and> arrays s6 5 = [3, 1, 5]
      \<and> currentView s6 = 0
      \<and> findIndex (groupIncludes s6 (Some 5)) (data s6) = 1
      \<and> handleTabClose 5 False s6 = Inr s7
      \<and> data s7 = data s6 \<and> arrays s7 5 = [3, 1]
      \<and> currentView s7 = 0
      \<and> docShellIsActive (tabState s7 1) \<and> docShellIsActive (tabState s7 2)
      \<and> attr_split_active (container (tabState s7 1)) = Some ''true''"
proof -
  from stale_flag_window obtain s1 s2 s3 s4 where
    chain: "splitTabs 0 window0 = Inr s1" "splitTabs 1 s1 = Inr s2"
      "updateSplitView (Some 1) s2 = Inr s3" "handleTabClose 4 False s3 = Inr s4"
    and s4: "data s4 = [\<lparr>tabs = 0, flexType = Flex\<rparr>]" "currentView_ok s4"
      "arrays s4 = arrays0(Suc 0 := [3])" "splitView (tabState s4 3)"
    by blast
  have "hd (arrays s4 5) = 3" "arrays s4 5 \<noteq> []"
    using s4(3) by (simp_all add: arrays0_at)
  from stale_flag_split [OF s4 this] obtain s5 where
    sp: "splitTabs 5 s4 = Inr s5"
    and s5: "data s5 = [\<lparr>tabs = 0, flexType = Flex\<rparr>, \<lparr>tabs = 5, flexType = Flex\<rparr>]"
      "arrays s5 = arrays s4" "currentView_ok s5"
    by blast
  have a5: "arrays s5 0 = [1, 2]" "arrays s5 5 = [3, 1, 5]"
    using s5(2) s4(3) by (simp_all add: arrays0_at)
  have fi2: "findIndex (groupIncludes s5 (Some 2)) (data s5) = int 0"
    by (simp add: groupIncludes_def includes_tab_def s5(1) a5)
  from updateSplitView_result [OF fi2 s5(3)] obtain s6 where
    u: "updateSplitView (Some 2) s5 = Inr s6"
    and s6: "data s6 = data s5" "arrays s6 = arrays s5" "currentView s6 = int 0"
    by blast
  have s6': "data s6 = [\<lparr>tabs = 0, flexType = Flex\<rparr>, \<lparr>tabs = 5, flexType = Flex\<rparr>]"
    "arrays s6 0 = [1, 2]" "arrays s6 5 = [3, 1, 5]" "currentView s6 = 0"
    by (simp_all add: s6 s5(1) a5)
  have fi5: "findIndex (groupIncludes s6 (Some 5)) (data s6) = int 1"
    by (simp add: groupIncludes_def includes_tab_def s6')
  define sr where "sr = removed 5 5 False s6"
  have sr: "data sr = [\<lparr>tabs = 0, flexType = Flex\<rparr>, \<lparr>tabs = 5, flexType = Flex\<rparr>]"
    "arrays sr 0 = [1, 2]" "arrays sr 5 = [3, 1]" "currentView sr = 0"
    by (simp_all add: sr_def s6')
  have close: "handleTabClose 5 False s6 = updateSplitView (Some 1) sr"
    unfolding handleTabClose_unfold [OF fi5] Let_def
    by (simp add: s6'(1) sr_def [symmetric] sr)
  have fi1: "findIndex (groupIncludes sr (Some 1)) (data sr) = int 0"
    by (simp add: groupIncludes_def includes_tab_def sr)
  have "currentView_ok sr" by (simp add: currentView_ok_def sr)
  from updateSplitView_result [OF fi1 this] obtain s7 where
    s7: "updateSplitView (Some 1) sr = Inr s7" "data s7 = data sr" "arrays s7 = arrays sr"
      "currentView s7 = int 0"
      "\<forall>x\<in>set (arrays sr (tabs (data sr ! 0))).
           docShellIsActive (tabState s7 x) \<and> splitView (tabState s7 x)
           \<and> attr_split_active (container (tabState s7 x)) =
                (if Some x = Some 1 then Some ''true'' else None)"
    by blast
  have s7': "handleTabClose 5 False s6 = Inr s7" "data s7 = data s6" "arrays s7 5 = [3, 1]"
    "currentView s7 = 0"
    "docShellIsActive (tabState s7 1)" "docShellIsActive (tabState s7 2)"
    "attr_split_active (container (tabState s7 1)) = Some ''true''"
    using s7 by (simp_all add: close sr s6'(1))
  show ?thesis using chain sp u s6' fi5 s7' by auto
qed

section \<open>The claims\<close>

text \<open>
  C1. \<open>currentView\<close> is \<open>-1\<close> or an index of \<open>_data\<close>, and every operation keeps it so. The
  code breaks this in \<open>removeGroup\<close>, which splices \<open>_data\<close> without moving \<open>currentView\<close>:
  after \<open>splitTabs([1, 2])\<close> and \<open>splitTabs([3, 4])\<close> the second group is current
  (\<open>currentView = 1\<close>); closing tab 1 removes the first group, \<open>_data\<close> has one element, and
  \<open>currentView\<close> is still 1. The next \<open>updateSplitView\<close> of tab 3 reads \<open>_data[1].tabs\<close> and
  throws.
\<close>

theorem removeGroup_stale_currentView:
  "\<exists>s1 s2 s3. splitTabs 0 window0 = Inr s1 \<and> splitTabs 1 s1 = Inr s2
     \<and> currentView_ok s2 \<and> currentView s2 = 1
     \<and> handleTabClose 1 False s2 = Inr s3
     \<and> data s3 = [\<lparr>tabs = 1, flexType = Flex\<rparr>] \<and> currentView s3 = 1
     \<and> \<not> currentView_ok s3
     \<and> at (data s3) (currentView s3) = None
     \<and> updateSplitView (Some 3) s3 = Inl TypeError"
proof -
  from two_splits obtain s1 s2 where
    s12: "splitTabs 0 window0 = Inr s1" "splitTabs 1 s1 = Inr s2"
    and s2: "data s2 = [\<lparr>tabs = 0, flexType = Flex\<rparr>, \<lparr>tabs = 1, flexType = Flex\<rparr>]"
      "arrays s2 = arrays0" "currentView s2 = 1" "currentView_ok s2"
    by blast
  have fi: "findIndex (groupIncludes s2 (Some 1)) (data s2) = int 0"
    by (simp add: groupIncludes_def includes_tab_def s2 arrays0_at)
  have sole: "sole_group s2 0"
    by (auto simp: sole_group_def s2 arrays0_at less_Suc_eq)
  have len: "length (arrays s2 (tabs (data s2 ! 0))) = 2"
    by (simp add: s2 arrays0_at)
  from handleTabClose_last_pair [OF fi sole len, of False] obtain s3 where
    h: "handleTabClose 1 False s2 = Inr s3"
    and s3: "data s3 = take 0 (data s2) @ drop (Suc 0) (data s2)"
      "arrays s3 = (arrays s2)(tabs (data s2 ! 0) := remove1 1 (arrays s2 (tabs (data s2 ! 0))))"
      "currentView s3 = (if currentView s2 = int 0 then - 1 else currentView s2)"
    by blast
  have s3': "data s3 = [\<lparr>tabs = 1, flexType = Flex\<rparr>]" "currentView s3 = 1"
    "arrays s3 (Suc 0) = [3, 4]"
    using s3 by (simp_all add: s2 arrays0_at)
  have bad: "\<not> currentView_ok s3" "at (data s3) (currentView s3) = None"
    by (simp_all add: currentView_ok_def at_def s3')
  have "find (groupIncludes s3 (Some 3)) (data s3) = Some \<lparr>tabs = 1, flexType = Flex\<rparr>"
    by (simp add: groupIncludes_def includes_tab_def s3')
  from updateSplitView_stale [OF this _ bad(2)]
  have "updateSplitView (Some 3) s3 = Inl TypeError" by (simp add: s3')
  then show ?thesis using s12 s2(3,4) h s3'(1,2) bad by blast
qed

text \<open>
  C2. \<open>unsplitCurrentView()\<close> is to pass every member of the active group to the
  tab-close path and then restore the selected tab. The loop \<open>for (const tab of tabs)\<close>
  runs over the very array that \<open>removeTabFromGroup\<close> splices, so it skips the tab that
  moves into the place of the one just removed. After \<open>splitTabs([8, 9, 10, 11])\<close>, the
  loop passes 8 and 10 only: the group still exists with the members 9 and 11, is still
  current, and the preference is still on. The selected tab is restored.
\<close>

theorem unsplitCurrentView_skips_members:
  "\<exists>s1 s'. splitTabs 3 window0 = Inr s1
     \<and> data s1 = [\<lparr>tabs = 3, flexType = Flex\<rparr>] \<and> arrays s1 3 = [8, 9, 10, 11]
     \<and> currentView s1 = 0
     \<and> unsplitCurrentView s1 = Inr s'
     \<and> data s' = [\<lparr>tabs = 3, flexType = Flex\<rparr>] \<and> arrays s' 3 = [9, 11]
     \<and> currentView s' = 0 \<and> pref_working s'
     \<and> splitView (tabState s' 9) \<and> splitView (tabState s' 11)
     \<and> docShellIsActive (tabState s' 9) \<and> docShellIsActive (tabState s' 11)
     \<and> selectedTab s' = selectedTab s1"
proof -
  have "\<forall>x\<in>set (arrays window0 3). \<forall>g\<in>set (data window0). x \<notin> set (arrays window0 (tabs g))"
    by (simp add: window0_facts)
  from splitTabs_push [OF this window0_facts(1)] obtain s1 where
    sp: "splitTabs 3 window0 = Inr s1"
    and s1: "data s1 = [\<lparr>tabs = 3, flexType = Flex\<rparr>]" "arrays s1 = arrays0"
      "currentView_ok s1" "currentView s1 = 0"
    by (auto simp: window0_facts arrays0_at)
  have sole: "sole_group s 0" if "data s = [\<lparr>tabs = 3, flexType = Flex\<rparr>]" for s
    using that by (simp add: sole_group_def)
  \<comment> \<open>first round: index 0, tab 8\<close>
  have fi1: "findIndex (groupIncludes s1 (Some 8)) (data s1) = int 0"
    by (simp add: groupIncludes_def includes_tab_def s1 arrays0_at)
  have len1: "3 \<le> length (arrays s1 (tabs (data s1 ! 0)))" by (simp add: s1 arrays0_at)
  from handleTabClose_shrink [OF fi1 sole [OF s1(1)] len1 s1(3), of True] obtain sa where
    ha: "handleTabClose 8 True s1 = Inr sa"
    and sa: "data sa = data s1"
      "arrays sa = (arrays s1)(tabs (data s1 ! 0) := remove1 8 (arrays s1 (tabs (data s1 ! 0))))"
      "currentView sa = int 0"
    by blast
  have sa': "data sa = [\<lparr>tabs = 3, flexType = Flex\<rparr>]" "arrays sa 3 = [9, 10, 11]"
    "currentView sa = 0" "currentView_ok sa"
    using sa by (simp_all add: s1 arrays0_at currentView_ok_def)
  \<comment> \<open>second round: index 1, which now holds tab 10\<close>
  have fi2: "findIndex (groupIncludes sa (Some 10)) (data sa) = int 0"
    by (simp add: groupIncludes_def includes_tab_def sa')
  have len2: "3 \<le> length (arrays sa (tabs (data sa ! 0)))" by (simp add: sa')
  from handleTabClose_shrink [OF fi2 sole [OF sa'(1)] len2 sa'(4), of True] obtain sb where
    hb: "handleTabClose 10 True sa = Inr sb"
    and sb: "data sb = data sa"
      "arrays sb = (arrays sa)(tabs (data sa ! 0) := remove1 10 (arrays sa (tabs (data sa ! 0))))"
      "currentView sb = int 0" "pref_working sb"
      "\<forall>x\<in>set (remove1 10 (arrays sa (tabs (data sa ! 0)))).
           docShellIsActive (tabState sb x) \<and> splitView (tabState sb x)
           \<and> attr_split_active (container (tabState sb x)) =
               (if x = last (remove1 10 (arrays sa (tabs (data sa ! 0)))) then Some ''true''
                else None)"
    by blast
  have sb': "data sb = [\<lparr>tabs = 3, flexType = Flex\<rparr>]" "arrays sb 3 = [9, 11]"
    "currentView sb = 0"
    "splitView (tabState sb 9)" "splitView (tabState sb 11)"
    "docShellIsActive (tabState sb 9)" "docShellIsActive (tabState sb 11)"
    using sb by (simp_all add: sa')
  \<comment> \<open>third round: index 2 is past the end of the array\<close>
  have l2: "unsplit_loop 3 (Suc (Suc 0)) sb = Inr sb"
    by (subst unsplit_loop.simps) (simp add: sb')
  have l1: "unsplit_loop 3 (Suc 0) sa = Inr sb"
    by (subst unsplit_loop.simps) (simp add: sa' hb l2)
  have l0: "unsplit_loop 3 0 s1 = Inr sb"
    by (subst unsplit_loop.simps) (simp add: s1 arrays0_at ha l1)
  have "unsplitCurrentView s1 = Inr (sb\<lparr>selectedTab := selectedTab s1\<rparr>)"
    by (simp add: unsplitCurrentView_def at_def s1 l0)
  then show ?thesis
    using sp s1(1,4) sb' sb(4) by (auto simp: s1 arrays0_at)
qed

text \<open>
  C3, as stated: for a tab that is in no group, \<open>handleTabClose\<close> and \<open>updateSplitView\<close>
  leave the state unchanged. It fails for \<open>updateSplitView\<close> when a group is active: after
  \<open>splitTabs([1, 2])\<close>, tab 9 is in no group, and \<open>updateSplitView(9)\<close> deactivates the
  group \<open>[1, 2]\<close>: \<open>currentView\<close> goes from 0 to \<open>-1\<close>, the preference is switched off
  and the docshell of tab 1 becomes inactive.
\<close>

theorem updateSplitView_unknown_tab_counterexample:
  "\<exists>s1 s'. splitTabs 0 window0 = Inr s1
     \<and> find (groupIncludes s1 (Some 9)) (data s1) = None
     \<and> updateSplitView (Some 9) s1 = Inr s' \<and> s' \<noteq> s1
     \<and> currentView s1 = 0 \<and> currentView s' = - 1
     \<and> docShellIsActive (tabState s1 1) \<and> \<not> docShellIsActive (tabState s' 1)"
proof -
  have "\<forall>x\<in>set (arrays window0 0). \<forall>g\<in>set (data window0). x \<notin> set (arrays window0 (tabs g))"
    by (simp add: window0_facts)
  from splitTabs_push [OF this window0_facts(1)] obtain s1 where
    sp: "splitTabs 0 window0 = Inr s1"
    and s1: "data s1 = [\<lparr>tabs = 0, flexType = Flex\<rparr>]" "arrays s1 = arrays0"
      "currentView s1 = 0" "docShellIsActive (tabState s1 1)"
    by (auto simp: window0_facts arrays0_at)
  have none: "find (groupIncludes s1 (Some 9)) (data s1) = None"
    by (simp add: groupIncludes_def includes_tab_def s1 arrays0_at)
  have cur: "at (data s1) (currentView s1) = Some \<lparr>tabs = 0, flexType = Flex\<rparr>"
    by (simp add: at_def s1)
  from deactivateSplitView_Some [OF cur] obtain s' where
    s': "deactivateSplitView s1 = Inr s'" "currentView s' = - 1"
      "\<And>x. tabState s' x =
          (if x \<in> set (arrays s1 (tabs \<lparr>tabs = 0, flexType = Flex\<rparr>))
           then docShellTab False (deactivateTab (tabState s1 x)) else tabState s1 x)"
    by blast
  have "updateSplitView (Some 9) s1 = Inr s'"
    using s'(1) by (simp add: updateSplitView_no_group [OF none] s1)
  moreover have "s' \<noteq> s1" using s'(2) s1(3) by auto
  moreover have "\<not> docShellIsActive (tabState s' 1)"
    by (simp add: s'(3) s1 arrays0_at deactivated_tab)
  ultimately show ?thesis using sp none s1(3,4) s'(2) by blast
qed

text \<open>
  C3, amended: for a tab that is in no group, \<open>handleTabClose\<close> returns without a change in
  every state; \<open>updateSplitView\<close> returns without a change when no group is active; when
  \<open>currentView\<close> is the index of a group, \<open>updateSplitView\<close> raises no error and deactivates
  that group: \<open>currentView\<close> becomes \<open>-1\<close>, the preference is off, the docshells of its
  tabs are inactive, and the groups and their members stay as they were.
\<close>

theorem unknown_tab:
  assumes "find (groupIncludes s (Some t)) (data s) = None"
  shows "handleTabClose t f s = Inr s
    \<and> (currentView s < 0 \<longrightarrow> updateSplitView (Some t) s = Inr s)
    \<and> (\<forall>g. at (data s) (currentView s) = Some g \<longrightarrow>
          (\<exists>s'. updateSplitView (Some t) s = Inr s' \<and> currentView s' = -1
             \<and> \<not> pref_working s' \<and> data s' = data s \<and> arrays s' = arrays s
             \<and> (\<forall>x\<in>set (arrays s (tabs g)). \<not> docShellIsActive (tabState s' x))))"
proof (intro conjI allI impI)
  show "handleTabClose t f s = Inr s"
    using assms by (simp add: handleTabClose_def find_None_findIndex)
next
  assume "currentView s < 0"
  then show "updateSplitView (Some t) s = Inr s"
    by (simp add: updateSplitView_no_group [OF assms])
next
  fix g
  assume cur: "at (data s) (currentView s) = Some g"
  then have ge: "0 \<le> currentView s" by (simp add: at_Some_iff)
  from deactivateSplitView_Some [OF cur] obtain s' where
    s': "deactivateSplitView s = Inr s'" "data s' = data s" "arrays s' = arrays s"
      "currentView s' = -1" "\<not> pref_working s'"
      "\<And>x. tabState s' x =
          (if x \<in> set (arrays s (tabs g))
           then docShellTab False (deactivateTab (tabState s x)) else tabState s x)"
    by blast
  have "\<forall>x\<in>set (arrays s (tabs g)). \<not> docShellIsActive (tabState s' x)"
    by (simp add: s'(6) deactivated_tab)
  then show "\<exists>s'. updateSplitView (Some t) s = Inr s' \<and> currentView s' = -1
             \<and> \<not> pref_working s' \<and> data s' = data s \<and> arrays s' = arrays s
             \<and> (\<forall>x\<in>set (arrays s (tabs g)). \<not> docShellIsActive (tabState s' x))"
    using ge s'(1-5) by (simp add: updateSplitView_no_group [OF assms])
qed

theorem unknown_tab_witness:
  "find (groupIncludes window0 (Some 9)) (data window0) = None
   \<and> currentView window0 < 0
   \<and> handleTabClose 9 False window0 = Inr window0
   \<and> updateSplitView (Some 9) window0 = Inr window0
   \<and> find (groupIncludes window2 (Some 9)) (data window2) = None
   \<and> at (data window2) (currentView window2) = Some \<lparr>tabs = 0, flexType = Flex\<rparr>
   \<and> handleTabClose 9 False window2 = Inr window2
   \<and> (\<exists>s'. updateSplitView (Some 9) window2 = Inr s' \<and> currentView s' = -1
         \<and> \<not> pref_working s' \<and> data s' = data window2 \<and> arrays s' = arrays window2
         \<and> \<not> docShellIsActive (tabState s' 1) \<and> \<not> docShellIsActive (tabState s' 2))"
proof -
  have n0: "find (groupIncludes window0 (Some 9)) (data window0) = None"
    and c0: "currentView window0 < 0"
    and n2: "find (groupIncludes window2 (Some 9)) (data window2) = None"
    and c2: "at (data window2) (currentView window2) = Some \<lparr>tabs = 0, flexType = Flex\<rparr>"
    and a2: "arrays window2 0 = [1, 2]"
    by (simp_all add: window_simps)
  from unknown_tab [OF n0, of False] c0
  have "handleTabClose 9 False window0 = Inr window0
    \<and> updateSplitView (Some 9) window0 = Inr window0"
    by blast
  moreover from unknown_tab [OF n2, of False] c2
  have "handleTabClose 9 False window2 = Inr window2
    \<and> (\<exists>s'. updateSplitView (Some 9) window2 = Inr s' \<and> currentView s' = -1
         \<and> \<not> pref_working s' \<and> data s' = data window2 \<and> arrays s' = arrays window2
         \<and> \<not> docShellIsActive (tabState s' 1) \<and> \<not> docShellIsActive (tabState s' 2))"
    using a2 by fastforce
  ultimately show ?thesis using n0 c0 n2 c2 by blast
qed

text \<open>
  C4, as stated: when some input tab is in a group, \<open>splitTabs\<close> creates no group. It fails
  in a window reached as follows: \<open>splitTabs([1, 2])\<close>, \<open>splitTabs([3, 4])\<close>, tab 1 is
  selected (\<open>updateSplitView(1)\<close>), tab 4 is closed. The group \<open>[3, 4]\<close> is gone, tab 3
  keeps its \<open>splitView\<close> flag, and tab 1 is in the group \<open>[1, 2]\<close>. Now \<open>splitTabs([3, 1])\<close>
  finds the flagged tab 3 first, finds no group for it, and pushes a second group, which
  also holds tab 1.
\<close>

theorem splitTabs_existing_member_counterexample:
  "\<exists>s1 s2 s3 s4 s5. splitTabs 0 window0 = Inr s1 \<and> splitTabs 1 s1 = Inr s2
     \<and> updateSplitView (Some 1) s2 = Inr s3 \<and> handleTabClose 4 False s3 = Inr s4
     \<and> data s4 = [\<lparr>tabs = 0, flexType = Flex\<rparr>] \<and> currentView s4 = 0
     \<and> arrays s4 0 = [1, 2] \<and> arrays s4 4 = [3, 1]
     \<and> splitTabs 4 s4 = Inr s5
     \<and> data s5 = [\<lparr>tabs = 0, flexType = Flex\<rparr>, \<lparr>tabs = 4, flexType = Flex\<rparr>]
     \<and> arrays s5 = arrays s4"
proof -
  from two_splits obtain s1 s2 where
    s12: "splitTabs 0 window0 = Inr s1" "splitTabs 1 s1 = Inr s2"
    and s2: "data s2 = [\<lparr>tabs = 0, flexType = Flex\<rparr>, \<lparr>tabs = 1, flexType = Flex\<rparr>]"
      "arrays s2 = arrays0" "currentView s2 = 1" "currentView_ok s2"
      "splitView (tabState s2 3)"
    by blast
  have "findIndex (groupIncludes s2 (Some 1)) (data s2) = int 0"
    by (simp add: groupIncludes_def includes_tab_def s2 arrays0_at)
  from updateSplitView_result [OF this s2(4)] obtain s3 where
    u: "updateSplitView (Some 1) s2 = Inr s3"
    and s3: "data s3 = data s2" "arrays s3 = arrays s2" "currentView s3 = int 0"
    by blast
  have flag3: "splitView (tabState s3 3)"
    by (rule updateSplitView_keeps_flag [OF u s2(5)])
  have fi: "findIndex (groupIncludes s3 (Some 4)) (data s3) = int 1"
    by (simp add: groupIncludes_def includes_tab_def s3 s2 arrays0_at)
  have sole: "sole_group s3 1"
    by (auto simp: sole_group_def s3 s2 arrays0_at less_Suc_eq)
  have len: "length (arrays s3 (tabs (data s3 ! 1))) = 2"
    by (simp add: s3 s2 arrays0_at)
  from handleTabClose_last_pair [OF fi sole len, of False] obtain s4 where
    h: "handleTabClose 4 False s3 = Inr s4"
    and s4: "data s4 = take 1 (data s3) @ drop (Suc 1) (data s3)"
      "arrays s4 = (arrays s3)(tabs (data s3 ! 1) := remove1 4 (arrays s3 (tabs (data s3 ! 1))))"
      "currentView s4 = (if currentView s3 = int 1 then - 1 else currentView s3)"
    by blast
  have s4': "data s4 = [\<lparr>tabs = 0, flexType = Flex\<rparr>]" "currentView s4 = 0"
    "arrays s4 0 = [1, 2]" "arrays s4 4 = [3, 1]"
    using s4 by (simp_all add: s3 s2 arrays0_at)
  have "currentView s3 \<noteq> int 1" by (simp add: s3)
  from handleTabClose_last_pair_tabs [OF fi len this h, of 3] flag3
  have flag4: "splitView (tabState s4 3)" by simp
  have gate: "\<forall>t. find (\<lambda>tab. splitView (tabState s4 tab)) (arrays s4 4) = Some t \<longrightarrow>
      findIndex (groupIncludes s4 (Some t)) (data s4) < 0"
    using flag4 by (simp add: s4' groupIncludes_def includes_tab_def)
  have "currentView_ok s4" by (simp add: currentView_ok_def s4')
  from splitTabs_new_group [OF gate this] obtain s5 where
    "splitTabs 4 s4 = Inr s5" "data s5 = data s4 @ [\<lparr>tabs = 4, flexType = Flex\<rparr>]"
    "arrays s5 = arrays s4"
    by blast
  then show ?thesis using s12 u h s4' by auto
qed

text \<open>
  C4, amended: in a state whose \<open>currentView\<close> is \<open>-1\<close> or an index of \<open>_data\<close>, if the first
  input tab whose \<open>splitView\<close> flag is set is in a group, \<open>splitTabs\<close> activates the first
  group that includes that tab and creates no group: \<open>_data\<close> and every array of tabs are
  unchanged.
\<close>

theorem splitTabs_existing:
  assumes "find (\<lambda>tab. splitView (tabState s tab)) (arrays s a) = Some t"
    and "findIndex (groupIncludes s (Some t)) (data s) = int i"
    and "currentView_ok s"
  shows "\<exists>s'. splitTabs a s = Inr s' \<and> data s' = data s \<and> arrays s' = arrays s
     \<and> currentView s' = int i \<and> pref_working s'
     \<and> (\<forall>x\<in>set (arrays s (tabs (data s ! i))). docShellIsActive (tabState s' x))"
proof -
  have "splitTabs a s = updateSplitView (Some t) s"
    by (simp add: splitTabs_def assms(1,2))
  moreover from updateSplitView_result [OF assms(2,3)] obtain s' where
    "updateSplitView (Some t) s = Inr s'" "data s' = data s" "arrays s' = arrays s"
    "currentView s' = int i" "pref_working s'"
    "\<forall>x\<in>set (arrays s (tabs (data s ! i))). docShellIsActive (tabState s' x)"
    by blast
  ultimately show ?thesis by auto
qed

theorem splitTabs_existing_witness:
  "\<exists>s1 s2 s'. splitTabs 0 window0 = Inr s1 \<and> splitTabs 1 s1 = Inr s2
     \<and> find (\<lambda>tab. splitView (tabState s2 tab)) (arrays s2 4) = Some 3
     \<and> findIndex (groupIncludes s2 (Some 3)) (data s2) = 1
     \<and> currentView_ok s2
     \<and> splitTabs 4 s2 = Inr s' \<and> data s' = data s2 \<and> arrays s' = arrays s2
     \<and> currentView s' = 1 \<and> pref_working s'
     \<and> docShellIsActive (tabState s' 3) \<and> docShellIsActive (tabState s' 4)"
proof -
  from two_splits obtain s1 s2 where
    s12: "splitTabs 0 window0 = Inr s1" "splitTabs 1 s1 = Inr s2"
    and s2: "data s2 = [\<lparr>tabs = 0, flexType = Flex\<rparr>, \<lparr>tabs = 1, flexType = Flex\<rparr>]"
      "arrays s2 = arrays0" "currentView_ok s2" "splitView (tabState s2 3)"
    by blast
  have flagged: "find (\<lambda>tab. splitView (tabState s2 tab)) (arrays s2 4) = Some 3"
    using s2(4) by (simp add: s2(2) arrays0_at)
  have fi: "findIndex (groupIncludes s2 (Some 3)) (data s2) = int 1"
    by (simp add: groupIncludes_def includes_tab_def s2 arrays0_at)
  from splitTabs_existing [OF flagged fi s2(3)] obtain s' where
    "splitTabs 4 s2 = Inr s'" "data s' = data s2" "arrays s' = arrays s2"
    "currentView s' = 1" "pref_working s'"
    "docShellIsActive (tabState s' 3)" "docShellIsActive (tabState s' 4)"
    by (auto simp: s2 arrays0_at)
  then show ?thesis using s12 flagged fi s2(3) by auto
qed

text \<open>
  C5. Start in a state whose \<open>currentView\<close> is \<open>-1\<close> or an index of \<open>_data\<close>, and call
  \<open>splitTabs\<close> on arrays whose tabs are pairwise disjoint and disjoint from the groups that
  exist. Every call returns, the calls add as many groups as there are calls, and the
  \<open>k\<close>-th added group has the tabs of the \<open>k\<close>-th array, in their order.
\<close>

theorem splitTabs_calls_groups:
  assumes "currentView_ok s"
    and "pairwise_disjoint (map (arrays s) as)"
    and "\<forall>a\<in>set as. \<forall>g\<in>set (data s). set (arrays s a) \<inter> set (arrays s (tabs g)) = {}"
  shows "\<exists>s'. splitTabs_calls as s = Inr s'
     \<and> length (data s') = length (data s) + length as
     \<and> take (length (data s)) (data s') = data s
     \<and> (\<forall>k<length as.
           arrays s' (tabs (data s' ! (length (data s) + k))) = arrays s (as ! k))"
proof -
  from splitTabs_calls_append [OF assms] obtain s' where
    s': "splitTabs_calls as s = Inr s'"
      "data s' = data s @ map (\<lambda>a. \<lparr>tabs = a, flexType = Flex\<rparr>) as"
      "arrays s' = arrays s"
    by blast
  have "length (data s') = length (data s) + length as"
    and "take (length (data s)) (data s') = data s"
    and "\<forall>k<length as. arrays s' (tabs (data s' ! (length (data s) + k))) = arrays s (as ! k)"
    by (simp_all add: s'(2,3))
  with s'(1) show ?thesis by blast
qed

theorem splitTabs_calls_groups_witness:
  "currentView_ok window0
   \<and> pairwise_disjoint [[1, 2], [5, 6, 7], [3, 4]]
   \<and> map (arrays window0) [0, 2, 1] = [[1, 2], [5, 6, 7], [3, 4]]
   \<and> data window0 = []
   \<and> (\<exists>s'. splitTabs_calls [0, 2, 1] window0 = Inr s'
         \<and> length (data s') = 3
         \<and> arrays s' (tabs (data s' ! 0)) = [1, 2]
         \<and> arrays s' (tabs (data s' ! 1)) = [5, 6, 7]
         \<and> arrays s' (tabs (data s' ! 2)) = [3, 4])"
proof -
  have ok: "currentView_ok window0" and d: "data window0 = []"
    and m: "map (arrays window0) [0, 2, 1] = [[1, 2], [5, 6, 7], [3, 4]]"
    and a: "arrays window0 0 = [1, 2]" "arrays window0 2 = [5, 6, 7]" "arrays window0 1 = [3, 4]"
    by (simp_all add: window_simps currentView_ok_def)
  have pd: "pairwise_disjoint [[1, 2], [5, 6, 7], [3, 4]]" by simp
  then have pd': "pairwise_disjoint (map (arrays window0) [0, 2, 1])" by (simp only: m)
  have dis: "\<forall>a\<in>set [0, 2, 1]. \<forall>g\<in>set (data window0).
      set (arrays window0 a) \<inter> set (arrays window0 (tabs g)) = {}"
    by (simp add: d)
  from splitTabs_calls_groups [OF ok pd' dis] obtain s' where
    s': "splitTabs_calls [0, 2, 1] window0 = Inr s'"
      "length (data s') = length (data window0) + length [0::nat, 2, 1]"
      "\<forall>k<length [0::nat, 2, 1].
         arrays s' (tabs (data s' ! (length (data window0) + k))) = arrays window0 ([0, 2, 1] ! k)"
    by blast
  have "arrays s' (tabs (data s' ! 0)) = [1, 2]"
    using s'(3) [rule_format, of 0] by (simp add: d a)
  moreover have "arrays s' (tabs (data s' ! 1)) = [5, 6, 7]"
    using s'(3) [rule_format, of 1] by (simp add: d a)
  moreover have "arrays s' (tabs (data s' ! 2)) = [3, 4]"
    using s'(3) [rule_format, of 2] a(3) by (simp add: d numeral_2_eq_2)
  moreover have "length (data s') = 3" using s'(2) by (simp add: d)
  ultimately show ?thesis using ok pd m d s'(1) by blast
qed

text \<open>
  C6. For a tab of the group at \<open>currentView\<close>, a second \<open>updateSplitView(tab)\<close> right after
  the first one returns the state that the first one returned: the panel, every
  container's attributes and inline style, the docshell flags and \<open>currentView\<close> are the
  same.
\<close>

theorem updateSplitView_twice:
  assumes "at (data s) (currentView s) = Some cur" and "t \<in> set (arrays s (tabs cur))"
  shows "\<exists>s1. updateSplitView (Some t) s = Inr s1 \<and> updateSplitView (Some t) s1 = Inr s1"
proof -
  have inc: "groupIncludes s (Some t) cur"
    using assms(2) by (simp add: groupIncludes_def includes_tab_def)
  have "cur \<in> set (data s)" using assms(1) by (auto simp: at_Some_iff)
  then obtain g where g: "find (groupIncludes s (Some t)) (data s) = Some g"
    using inc by (cases "find (groupIncludes s (Some t)) (data s)") (auto simp: find_None_iff)
  define s1 where "s1 = activateSplitView g (Some t) s"
  have first: "updateSplitView (Some t) s = Inr s1"
    unfolding s1_def by (rule updateSplitView_same [OF g assms(1) inc])
  have same: "groupIncludes s1 = groupIncludes s"
    by (intro ext) (simp add: groupIncludes_def s1_def)
  have g1: "find (groupIncludes s1 (Some t)) (data s1) = Some g"
    using g by (simp add: same) (simp add: s1_def)
  have cur1: "at (data s1) (currentView s1) = Some g"
    using find_Some_currentView [OF g] by (simp add: s1_def)
  have inc1: "groupIncludes s1 (Some t) g"
    using g by (auto simp: same find_Some_iff)
  have "updateSplitView (Some t) s1 = Inr (activateSplitView g (Some t) s1)"
    by (rule updateSplitView_same [OF g1 cur1 inc1])
  then have "updateSplitView (Some t) s1 = Inr s1"
    by (simp add: s1_def activateSplitView_idem)
  with first show ?thesis by blast
qed

theorem updateSplitView_twice_witness:
  "at (data window2) (currentView window2) = Some \<lparr>tabs = 0, flexType = Flex\<rparr>
   \<and> 2 \<in> set (arrays window2 (tabs \<lparr>tabs = 0, flexType = Flex\<rparr>))
   \<and> (\<exists>s1. updateSplitView (Some 2) window2 = Inr s1 \<and> updateSplitView (Some 2) s1 = Inr s1)"
proof -
  have h1: "at (data window2) (currentView window2) = Some \<lparr>tabs = 0, flexType = Flex\<rparr>"
    and h2: "2 \<in> set (arrays window2 (tabs \<lparr>tabs = 0, flexType = Flex\<rparr>))"
    by (simp_all add: window_simps)
  from updateSplitView_twice [OF h1 h2] h1 h2 show ?thesis by blast
qed

text \<open>
  C7, as stated: for every group, closing a tab of a two-member group leaves no group for
  either former member, and closing a tab of a larger group leaves the group with the
  remaining tabs and lays it out again. Both parts fail on windows that the operations
  reach.

  First part: in the window after \<open>splitTabs([1, 2])\<close>, \<open>splitTabs([3, 4])\<close>,
  \<open>updateSplitView(1)\<close>, the close of tab 4 and \<open>splitTabs([3, 1])\<close>, the groups are \<open>[1, 2]\<close>
  and \<open>[3, 1]\<close>. Closing tab 2 removes the group \<open>[1, 2]\<close>, and the \<open>find\<close> of
  \<open>updateSplitView\<close> still finds a group for tab 1, the group \<open>[3, 1]\<close>.

  Second part: after \<open>splitTabs([1, 2])\<close>, \<open>splitTabs([5, 6, 7])\<close> and the close of tab 1,
  \<open>_data\<close> holds the group \<open>[5, 6, 7]\<close> alone and \<open>currentView\<close> is 1. Closing tab 6 throws in
  \<open>updateSplitView\<close>, before any layout. And with the groups \<open>[1, 2]\<close> and \<open>[3, 1, 5]\<close>,
  closing tab 5 leaves \<open>[3, 1]\<close> at index 1, but the group that is laid out and made
  current is \<open>[1, 2]\<close> at index 0, the first group that includes the new last member 1.
\<close>

theorem handleTabClose_group_counterexample:
  "(\<exists>s1 s2 s3 s4 s5 s6. splitTabs 0 window0 = Inr s1 \<and> splitTabs 1 s1 = Inr s2
      \<and> updateSplitView (Some 1) s2 = Inr s3 \<and> handleTabClose 4 False s3 = Inr s4
      \<and> splitTabs 4 s4 = Inr s5
      \<and> data s5 = [\<lparr>tabs = 0, flexType = Flex\<rparr>, \<lparr>tabs = 4, flexType = Flex\<rparr>]
      \<and> arrays s5 0 = [1, 2] \<and> arrays s5 4 = [3, 1]
      \<and> findIndex (groupIncludes s5 (Some 2)) (data s5) = 0
      \<and> handleTabClose 2 False s5 = Inr s6
      \<and> data s6 = [\<lparr>tabs = 4, flexType = Flex\<rparr>]
      \<and> find (groupIncludes s6 (Some 1)) (data s6) = Some \<lparr>tabs = 4, flexType = Flex\<rparr>)
   \<and> (\<exists>s1 s2 s3. splitTabs 0 window0 = Inr s1 \<and> splitTabs 2 s1 = Inr s2
      \<and> handleTabClose 1 False s2 = Inr s3
      \<and> data s3 = [\<lparr>tabs = 2, flexType = Flex\<rparr>] \<and> arrays s3 2 = [5, 6, 7]
      \<and> currentView s3 = 1
      \<and> findIndex (groupIncludes s3 (Some 6)) (data s3) = 0
      \<and> handleTabClose 6 False s3 = Inl TypeError)
   \<and> (\<exists>s1 s2 s3 s4 s5 s6 s7. splitTabs 0 window0 = Inr s1 \<and> splitTabs 1 s1 = Inr s2
      \<and> updateSplitView (Some 1) s2 = Inr s3 \<and> handleTabClose 4 False s3 = Inr s4
      \<and> splitTabs 5 s4 = Inr s5 \<and> updateSplitView (Some 2) s5 = Inr s6
      \<and> data s6 = [\<lparr>tabs = 0, flexType = Flex\<rparr>, \<lparr>tabs = 5, flexType = Flex\<rparr>]
      \<and> arrays s6 5 = [3, 1, 5]
      \<and> findIndex (groupIncludes s6 (Some 5)) (data s6) = 1
      \<and> handleTabClose 5 False s6 = Inr s7
      \<and> data s7 = data s6 \<and> arrays s7 5 = [3, 1]
      \<and> currentView s7 = 0
      \<and> attr_split_active (container (tabState s7 1)) = Some ''true'')"
proof (intro conjI)
  from stale_flag_window obtain s1 s2 s3 s4 where
    chain: "splitTabs 0 window0 = Inr s1" "splitTabs 1 s1 = Inr s2"
      "updateSplitView (Some 1) s2 = Inr s3" "handleTabClose 4 False s3 = Inr s4"
    and s4: "data s4 = [\<lparr>tabs = 0, flexType = Flex\<rparr>]" "currentView_ok s4"
      "arrays s4 = arrays0(Suc 0 := [3])" "splitView (tabState s4 3)"
    by blast
  have "hd (arrays s4 4) = 3" "arrays s4 4 \<noteq> []"
    using s4(3) by (simp_all add: arrays0_at)
  from stale_flag_split [OF s4 this] obtain s5 where
    sp: "splitTabs 4 s4 = Inr s5"
    and s5: "data s5 = [\<lparr>tabs = 0, flexType = Flex\<rparr>, \<lparr>tabs = 4, flexType = Flex\<rparr>]"
      "arrays s5 = arrays s4"
    by blast
  have a5: "arrays s5 0 = [1, 2]" "arrays s5 4 = [3, 1]"
    using s5(2) s4(3) by (simp_all add: arrays0_at)
  have fi: "findIndex (groupIncludes s5 (Some 2)) (data s5) = int 0"
    by (simp add: groupIncludes_def includes_tab_def s5(1) a5)
  have len: "length (arrays s5 (tabs (data s5 ! 0))) = 2" by (simp add: s5(1) a5)
  from handleTabClose_pair_result [OF fi len, of False] obtain s6 where
    h: "handleTabClose 2 False s5 = Inr s6"
    and s6: "data s6 = take 0 (data s5) @ drop (Suc 0) (data s5)"
      "arrays s6 = (arrays s5)(tabs (data s5 ! 0) := remove1 2 (arrays s5 (tabs (data s5 ! 0))))"
    by blast
  have s6': "data s6 = [\<lparr>tabs = 4, flexType = Flex\<rparr>]" "arrays s6 4 = [3, 1]"
    using s6 by (simp_all add: s5(1) a5)
  have "find (groupIncludes s6 (Some 1)) (data s6) = Some \<lparr>tabs = 4, flexType = Flex\<rparr>"
    by (simp add: groupIncludes_def includes_tab_def s6')
  then show "\<exists>s1 s2 s3 s4 s5 s6. splitTabs 0 window0 = Inr s1 \<and> splitTabs 1 s1 = Inr s2
      \<and> updateSplitView (Some 1) s2 = Inr s3 \<and> handleTabClose 4 False s3 = Inr s4
      \<and> splitTabs 4 s4 = Inr s5
      \<and> data s5 = [\<lparr>tabs = 0, flexType = Flex\<rparr>, \<lparr>tabs = 4, flexType = Flex\<rparr>]
      \<and> arrays s5 0 = [1, 2] \<and> arrays s5 4 = [3, 1]
      \<and> findIndex (groupIncludes s5 (Some 2)) (data s5) = 0
      \<and> handleTabClose 2 False s5 = Inr s6
      \<and> data s6 = [\<lparr>tabs = 4, flexType = Flex\<rparr>]
      \<and> find (groupIncludes s6 (Some 1)) (data s6) = Some \<lparr>tabs = 4, flexType = Flex\<rparr>"
    using chain sp s5(1) a5 fi h s6'(1) by auto
next
  have "set (arrays0 0) \<inter> set (arrays0 2) = {}" "arrays0 2 \<noteq> []"
    by (simp_all add: arrays0_at)
  from two_disjoint_splits [OF this] obtain s1 s2 where
    s12: "splitTabs 0 window0 = Inr s1" "splitTabs 2 s1 = Inr s2"
    and s2: "data s2 = [\<lparr>tabs = 0, flexType = Flex\<rparr>, \<lparr>tabs = 2, flexType = Flex\<rparr>]"
      "arrays s2 = arrays0" "currentView s2 = 1"
    by blast
  have fi1: "findIndex (groupIncludes s2 (Some 1)) (data s2) = int 0"
    by (simp add: groupIncludes_def includes_tab_def s2 arrays0_at)
  have len1: "length (arrays s2 (tabs (data s2 ! 0))) = 2" by (simp add: s2 arrays0_at)
  from handleTabClose_pair_result [OF fi1 len1, of False] obtain s3 where
    h: "handleTabClose 1 False s2 = Inr s3"
    and s3: "data s3 = take 0 (data s2) @ drop (Suc 0) (data s2)"
      "arrays s3 = (arrays s2)(tabs (data s2 ! 0) := remove1 1 (arrays s2 (tabs (data s2 ! 0))))"
      "currentView s3 = (if currentView s2 = int 0 then - 1 else currentView s2)"
    by blast
  have s3': "data s3 = [\<lparr>tabs = 2, flexType = Flex\<rparr>]" "arrays s3 2 = [5, 6, 7]"
    "currentView s3 = 1"
    using s3 by (simp_all add: s2 arrays0_at)
  have fi6: "findIndex (groupIncludes s3 (Some 6)) (data s3) = int 0"
    by (simp add: groupIncludes_def includes_tab_def s3')
  define sr where "sr = removed 6 2 False s3"
  have sr: "data sr = [\<lparr>tabs = 2, flexType = Flex\<rparr>]" "arrays sr 2 = [5, 7]"
    "currentView sr = 1"
    by (simp_all add: sr_def s3')
  have "handleTabClose 6 False s3 = updateSplitView (Some 7) sr"
    unfolding handleTabClose_unfold [OF fi6] Let_def
    by (simp add: s3'(1) sr_def [symmetric] sr)
  moreover have "find (groupIncludes sr (Some 7)) (data sr) = Some \<lparr>tabs = 2, flexType = Flex\<rparr>"
    by (simp add: groupIncludes_def includes_tab_def sr)
  from updateSplitView_stale [OF this]
  have "updateSplitView (Some 7) sr = Inl TypeError" by (simp add: sr at_def)
  ultimately have "handleTabClose 6 False s3 = Inl TypeError" by simp
  then show "\<exists>s1 s2 s3. splitTabs 0 window0 = Inr s1 \<and> splitTabs 2 s1 = Inr s2
      \<and> handleTabClose 1 False s2 = Inr s3
      \<and> data s3 = [\<lparr>tabs = 2, flexType = Flex\<rparr>] \<and> arrays s3 2 = [5, 6, 7]
      \<and> currentView s3 = 1
      \<and> findIndex (groupIncludes s3 (Some 6)) (data s3) = 0
      \<and> handleTabClose 6 False s3 = Inl TypeError"
    using s12 h s3' fi6 by auto
next
  show "\<exists>s1 s2 s3 s4 s5 s6 s7. splitTabs 0 window0 = Inr s1 \<and> splitTabs 1 s1 = Inr s2
      \<and> updateSplitView (Some 1) s2 = Inr s3 \<and> handleTabClose 4 False s3 = Inr s4
      \<and> splitTabs 5 s4 = Inr s5 \<and> updateSplitView (Some 2) s5 = Inr s6
      \<and> data s6 = [\<lparr>tabs = 0, flexType = Flex\<rparr>, \<lparr>tabs = 5, flexType = Flex\<rparr>]
      \<and> arrays s6 5 = [3, 1, 5]
      \<and> findIndex (groupIncludes s6 (Some 5)) (data s6) = 1
      \<and> handleTabClose 5 False s6 = Inr s7
      \<and> data s7 = data s6 \<and> arrays s7 5 = [3, 1]
      \<and> currentView s7 = 0
      \<and> attr_split_active (container (tabState s7 1)) = Some ''true''"
    using close_in_overlapping_group by blast
qed

text \<open>
  C7, amended. Let \<open>t\<close> be a tab whose group, the first one that includes it, is at index \<open>i\<close>, and
  let the members of that group be in no other group. If the group has two members,
  \<open>handleTabClose\<close> removes it from \<open>_data\<close>, and afterwards the \<open>find\<close> of
  \<open>updateSplitView\<close> finds no group for either former member. If it has three or more
  members and \<open>currentView\<close> is \<open>-1\<close> or an index of \<open>_data\<close>, the group stays, with the
  remaining tabs in their order, and it is laid out and activated with its new last member
  as the active one.
\<close>

theorem handleTabClose_group:
  assumes "findIndex (groupIncludes s (Some t)) (data s) = int i" and "sole_group s i"
  shows "(length (arrays s (tabs (data s ! i))) = 2 \<longrightarrow>
      (\<exists>s'. handleTabClose t f s = Inr s'
         \<and> data s' = take i (data s) @ drop (Suc i) (data s)
         \<and> (\<forall>x\<in>set (arrays s (tabs (data s ! i))).
               find (groupIncludes s' (Some x)) (data s') = None)))
    \<and> (3 \<le> length (arrays s (tabs (data s ! i))) \<and> currentView_ok s \<longrightarrow>
      (\<exists>s'. handleTabClose t f s = Inr s'
         \<and> data s' = data s
         \<and> arrays s' (tabs (data s ! i)) = remove1 t (arrays s (tabs (data s ! i)))
         \<and> currentView s' = int i
         \<and> (\<forall>x\<in>set (remove1 t (arrays s (tabs (data s ! i)))).
               docShellIsActive (tabState s' x)
               \<and> attr_split_active (container (tabState s' x)) =
                   (if x = last (remove1 t (arrays s (tabs (data s ! i)))) then Some ''true''
                    else None))))"
proof (intro conjI impI)
  assume "length (arrays s (tabs (data s ! i))) = 2"
  from handleTabClose_last_pair [OF assms this, of f]
  show "\<exists>s'. handleTabClose t f s = Inr s'
         \<and> data s' = take i (data s) @ drop (Suc i) (data s)
         \<and> (\<forall>x\<in>set (arrays s (tabs (data s ! i))).
               find (groupIncludes s' (Some x)) (data s') = None)"
    by blast
next
  assume "3 \<le> length (arrays s (tabs (data s ! i))) \<and> currentView_ok s"
  then have len: "3 \<le> length (arrays s (tabs (data s ! i)))" and ok: "currentView_ok s"
    by simp_all
  from handleTabClose_shrink [OF assms len ok, of f] obtain s' where
    s': "handleTabClose t f s = Inr s'" "data s' = data s"
      "arrays s' = (arrays s)(tabs (data s ! i) := remove1 t (arrays s (tabs (data s ! i))))"
      "currentView s' = int i"
      "\<forall>x\<in>set (remove1 t (arrays s (tabs (data s ! i)))).
           docShellIsActive (tabState s' x) \<and> splitView (tabState s' x)
           \<and> attr_split_active (container (tabState s' x)) =
               (if x = last (remove1 t (arrays s (tabs (data s ! i)))) then Some ''true''
                else None)"
    by blast
  have "arrays s' (tabs (data s ! i)) = remove1 t (arrays s (tabs (data s ! i)))"
    by (simp add: s'(3))
  then show "\<exists>s'. handleTabClose t f s = Inr s'
         \<and> data s' = data s
         \<and> arrays s' (tabs (data s ! i)) = remove1 t (arrays s (tabs (data s ! i)))
         \<and> currentView s' = int i
         \<and> (\<forall>x\<in>set (remove1 t (arrays s (tabs (data s ! i)))).
               docShellIsActive (tabState s' x)
               \<and> attr_split_active (container (tabState s' x)) =
                   (if x = last (remove1 t (arrays s (tabs (data s ! i)))) then Some ''true''
                    else None))"
    using s'(1,2,4,5) by blast
qed

theorem handleTabClose_group_witness:
  "findIndex (groupIncludes window2 (Some 1)) (data window2) = 0
   \<and> arrays window2 0 = [1, 2]
   \<and> (\<exists>s'. handleTabClose 1 False window2 = Inr s'
         \<and> data s' = [\<lparr>tabs = 2, flexType = Flex\<rparr>]
         \<and> find (groupIncludes s' (Some 1)) (data s') = None
         \<and> find (groupIncludes s' (Some 2)) (data s') = None)
   \<and> findIndex (groupIncludes window2 (Some 6)) (data window2) = 1
   \<and> arrays window2 2 = [5, 6, 7]
   \<and> currentView_ok window2
   \<and> (\<exists>s'. handleTabClose 6 False window2 = Inr s'
         \<and> data s' = data window2 \<and> arrays s' 2 = [5, 7] \<and> currentView s' = 1
         \<and> docShellIsActive (tabState s' 5) \<and> docShellIsActive (tabState s' 7)
         \<and> attr_split_active (container (tabState s' 5)) = None
         \<and> attr_split_active (container (tabState s' 7)) = Some ''true'')"
proof -
  have f1: "findIndex (groupIncludes window2 (Some 1)) (data window2) = int 0"
    and f6: "findIndex (groupIncludes window2 (Some 6)) (data window2) = int 1"
    and a0: "arrays window2 0 = [1, 2]" and a2: "arrays window2 2 = [5, 6, 7]"
    and d: "data window2 = [\<lparr>tabs = 0, flexType = Flex\<rparr>, \<lparr>tabs = 2, flexType = Flex\<rparr>]"
    and ok: "currentView_ok window2"
    by (simp_all add: window_simps currentView_ok_def)
  from handleTabClose_group [OF f1 sole_group_window2(1), of False]
  have "\<exists>s'. handleTabClose 1 False window2 = Inr s'
         \<and> data s' = [\<lparr>tabs = 2, flexType = Flex\<rparr>]
         \<and> find (groupIncludes s' (Some 1)) (data s') = None
         \<and> find (groupIncludes s' (Some 2)) (data s') = None"
    by (simp add: d a0)
  moreover from handleTabClose_group [OF f6 sole_group_window2(2), of False]
  have "\<exists>s'. handleTabClose 6 False window2 = Inr s'
         \<and> data s' = data window2 \<and> arrays s' 2 = [5, 7] \<and> currentView s' = 1
         \<and> docShellIsActive (tabState s' 5) \<and> docShellIsActive (tabState s' 7)
         \<and> attr_split_active (container (tabState s' 5)) = None
         \<and> attr_split_active (container (tabState s' 7)) = Some ''true''"
    using ok by (simp add: d a2) blast
  ultimately show ?thesis using f1 f6 a0 a2 ok by simp
qed

text \<open>
  C8. For a group \<open>g\<close> of the list and a member \<open>t\<close> of it, after
  \<open>activateSplitView(g, t)\<close>: \<open>currentView\<close> is the index of \<open>g\<close> in \<open>_data\<close>, every member of
  \<open>g\<close> has its docshell active, and among the members of \<open>g\<close> exactly \<open>t\<close> has a container
  with the \<open>split-active\<close> attribute.
\<close>

theorem activateSplitView_active:
  assumes "g \<in> set (data s)" and "t \<in> set (arrays s (tabs g))"
  shows "currentView (activateSplitView g (Some t) s) = indexOf (data s) g
    \<and> at (data (activateSplitView g (Some t) s)) (currentView (activateSplitView g (Some t) s))
        = Some g
    \<and> (\<forall>x\<in>set (arrays (activateSplitView g (Some t) s) (tabs g)).
          docShellIsActive (tabState (activateSplitView g (Some t) s) x))
    \<and> (\<forall>x\<in>set (arrays (activateSplitView g (Some t) s) (tabs g)).
          (attr_split_active (container (tabState (activateSplitView g (Some t) s) x))
             = Some ''true'') = (x = t))
    \<and> (\<forall>x\<in>set (arrays (activateSplitView g (Some t) s) (tabs g)). x \<noteq> t \<longrightarrow>
          attr_split_active (container (tabState (activateSplitView g (Some t) s) x)) = None)"
  using assms(1) by (simp add: at_indexOf activateSplitView_member)

theorem activateSplitView_active_witness:
  "\<lparr>tabs = 2, flexType = Flex\<rparr> \<in> set (data window2)
   \<and> 6 \<in> set (arrays window2 2)
   \<and> currentView (activateSplitView \<lparr>tabs = 2, flexType = Flex\<rparr> (Some 6) window2) = 1
   \<and> docShellIsActive (tabState (activateSplitView \<lparr>tabs = 2, flexType = Flex\<rparr> (Some 6) window2) 5)
   \<and> docShellIsActive (tabState (activateSplitView \<lparr>tabs = 2, flexType = Flex\<rparr> (Some 6) window2) 6)
   \<and> docShellIsActive (tabState (activateSplitView \<lparr>tabs = 2, flexType = Flex\<rparr> (Some 6) window2) 7)
   \<and> attr_split_active (container (tabState (activateSplitView \<lparr>tabs = 2, flexType = Flex\<rparr> (Some 6) window2) 5)) = None
   \<and> attr_split_active (container (tabState (activateSplitView \<lparr>tabs = 2, flexType = Flex\<rparr> (Some 6) window2) 6)) = Some ''true''
   \<and> attr_split_active (container (tabState (activateSplitView \<lparr>tabs = 2, flexType = Flex\<rparr> (Some 6) window2) 7)) = None"
proof -
  have h1: "\<lparr>tabs = 2, flexType = Flex\<rparr> \<in> set (data window2)"
    and h2: "6 \<in> set (arrays window2 (tabs \<lparr>tabs = 2, flexType = Flex\<rparr>))"
    and a: "arrays window2 2 = [5, 6, 7]"
    and i: "indexOf (data window2) \<lparr>tabs = 2, flexType = Flex\<rparr> = 1"
    by (simp_all add: window_simps indexOf_def)
  from activateSplitView_active [OF h1 h2] h1 h2 show ?thesis
    by (simp add: a i)
qed

text \<open>
  C9. When no group is active (\<open>currentView\<close> is \<open>-1\<close>), \<open>unsplitCurrentView()\<close> does not
  return silently: \<open>this._data[-1]\<close> is \<open>undefined\<close> and reading its \<open>tabs\<close> throws.
\<close>

theorem unsplitCurrentView_no_active_group:
  "currentView s = -1 \<Longrightarrow> unsplitCurrentView s = Inl TypeError"
  by (simp add: unsplitCurrentView_def at_def)

theorem unsplitCurrentView_no_active_group_witness:
  "currentView window0 = -1 \<and> unsplitCurrentView window0 = Inl TypeError"
proof -
  have h: "currentView window0 = -1" by (simp add: window_simps)
  from unsplitCurrentView_no_active_group [OF h] h show ?thesis by simp
qed

text \<open>
  C10, as stated: whenever a group \<open>g\<close> is active and another group \<open>h\<close> has three or more
  members, closing a tab of \<open>h\<close> deactivates \<open>g\<close> and activates \<open>h\<close>. It fails when the new
  last member of \<open>h\<close> is also in \<open>g\<close>: in the window after \<open>splitTabs([1, 2])\<close>,
  \<open>splitTabs([3, 4])\<close>, \<open>updateSplitView(1)\<close>, the close of tab 4, \<open>splitTabs([3, 1, 5])\<close> and
  \<open>updateSplitView(2)\<close>, the groups are \<open>[1, 2]\<close>, which is current, and \<open>[3, 1, 5]\<close>. Closing
  tab 5 calls \<open>updateSplitView(1)\<close>, whose \<open>find\<close> returns the group \<open>[1, 2]\<close>: \<open>currentView\<close>
  stays 0 and the tabs 1 and 2 keep an active docshell.
\<close>

theorem handleTabClose_inactive_group_counterexample:
  "\<exists>s1 s2 s3 s4 s5 s6 s7. splitTabs 0 window0 = Inr s1 \<and> splitTabs 1 s1 = Inr s2
      \<and> updateSplitView (Some 1) s2 = Inr s3 \<and> handleTabClose 4 False s3 = Inr s4
      \<and> splitTabs 5 s4 = Inr s5 \<and> updateSplitView (Some 2) s5 = Inr s6
      \<and> data s6 = [\<lparr>tabs = 0, flexType = Flex\<rparr>, \<lparr>tabs = 5, flexType = Flex\<rparr>]
      \<and> arrays s6 0 = [1, 2] \<and> arrays s6 5 = [3, 1, 5]
      \<and> currentView s6 = 0
      \<and> findIndex (groupIncludes s6 (Some 5)) (data s6) = 1
      \<and> handleTabClose 5 False s6 = Inr s7
      \<and> currentView s7 = 0
      \<and> docShellIsActive (tabState s7 1) \<and> docShellIsActive (tabState s7 2)"
  using close_in_overlapping_group by blast

text \<open>
  C10, amended. Let the group at \<open>currentView\<close> be \<open>g\<close>, and let \<open>t\<close> be a tab of another group, at
  index \<open>h\<close>, that has three or more members, all of them in no other group. Then
  \<open>handleTabClose\<close> of \<open>t\<close> deactivates \<open>g\<close> (the docshells of its tabs are inactive, their
  containers lose \<open>split\<close> and \<open>split-active\<close>) and activates the shrunken group:
  \<open>currentView\<close> becomes \<open>h\<close>, the docshells of its remaining tabs are active, and its new
  last member has \<open>split-active\<close>.
\<close>

theorem handleTabClose_inactive_group:
  assumes "at (data s) (currentView s) = Some g"
    and "findIndex (groupIncludes s (Some t)) (data s) = int h"
    and "currentView s \<noteq> int h"
    and "sole_group s h"
    and "3 \<le> length (arrays s (tabs (data s ! h)))"
  shows "\<exists>s'. handleTabClose t f s = Inr s'
     \<and> currentView s' = int h
     \<and> currentView s' \<noteq> currentView s
     \<and> arrays s' (tabs (data s ! h)) = remove1 t (arrays s (tabs (data s ! h)))
     \<and> (\<forall>x\<in>set (arrays s (tabs g)).
           \<not> docShellIsActive (tabState s' x)
           \<and> attr_split (container (tabState s' x)) = None
           \<and> attr_split_active (container (tabState s' x)) = None)
     \<and> (\<forall>x\<in>set (remove1 t (arrays s (tabs (data s ! h)))). docShellIsActive (tabState s' x))
     \<and> attr_split_active
          (container (tabState s' (last (remove1 t (arrays s (tabs (data s ! h)))))))
         = Some ''true''"
proof -
  have ok: "currentView_ok s" using assms(1) by (auto simp: currentView_ok_cases)
  define ts' where "ts' = remove1 t (arrays s (tabs (data s ! h)))"
  from handleTabClose_shrink [OF assms(2,4,5) ok, of f] obtain s' where
    s': "handleTabClose t f s = Inr s'"
      "arrays s' = (arrays s)(tabs (data s ! h) := ts')"
      "currentView s' = int h"
      "\<forall>x\<in>set ts'. docShellIsActive (tabState s' x) \<and> splitView (tabState s' x)
           \<and> attr_split_active (container (tabState s' x)) =
               (if x = last ts' then Some ''true'' else None)"
      "\<forall>cur. at (data s) (currentView s) = Some cur \<and> currentView s \<noteq> int h \<longrightarrow>
           (\<forall>x\<in>set (arrays s (tabs cur)).
              tabState s' x = docShellTab False (deactivateTab (tabState s x)))"
    unfolding ts'_def by blast
  have "t \<in> set (arrays s (tabs (data s ! h)))" by (rule findIndex_member(2) [OF assms(2)])
  then have "2 \<le> length ts'" using assms(5) by (simp add: ts'_def length_remove1)
  then have "ts' \<noteq> []" by auto
  then have "last ts' \<in> set ts'" by simp
  then have last: "attr_split_active (container (tabState s' (last ts'))) = Some ''true''"
    using s'(4) by auto
  have "\<forall>x\<in>set (arrays s (tabs g)).
          tabState s' x = docShellTab False (deactivateTab (tabState s x))"
    using s'(5) assms(1,3) by blast
  then have off: "\<forall>x\<in>set (arrays s (tabs g)).
           \<not> docShellIsActive (tabState s' x)
           \<and> attr_split (container (tabState s' x)) = None
           \<and> attr_split_active (container (tabState s' x)) = None"
    by (simp add: deactivated_tab)
  have "arrays s' (tabs (data s ! h)) = ts'" by (simp add: s'(2))
  moreover have "currentView s' \<noteq> currentView s" using s'(3) assms(3) by simp
  moreover have "\<forall>x\<in>set ts'. docShellIsActive (tabState s' x)" using s'(4) by blast
  ultimately show ?thesis using s'(1,3) off last unfolding ts'_def by blast
qed

theorem handleTabClose_inactive_group_witness:
  "\<exists>s1 s2 s'. splitTabs 2 window0 = Inr s1 \<and> splitTabs 0 s1 = Inr s2
     \<and> at (data s2) (currentView s2) = Some \<lparr>tabs = 0, flexType = Flex\<rparr>
     \<and> currentView s2 = 1
     \<and> findIndex (groupIncludes s2 (Some 6)) (data s2) = 0
     \<and> arrays s2 0 = [1, 2] \<and> arrays s2 2 = [5, 6, 7]
     \<and> docShellIsActive (tabState s2 1) \<and> docShellIsActive (tabState s2 2)
     \<and> handleTabClose 6 False s2 = Inr s'
     \<and> currentView s' = 0 \<and> arrays s' 2 = [5, 7]
     \<and> \<not> docShellIsActive (tabState s' 1) \<and> \<not> docShellIsActive (tabState s' 2)
     \<and> attr_split (container (tabState s' 1)) = None
     \<and> docShellIsActive (tabState s' 5) \<and> docShellIsActive (tabState s' 7)
     \<and> attr_split_active (container (tabState s' 7)) = Some ''true''"
proof -
  have "set (arrays0 2) \<inter> set (arrays0 0) = {}" "arrays0 0 \<noteq> []"
    by (simp_all add: arrays0_at)
  from two_disjoint_splits [OF this] obtain s1 s2 where
    s12: "splitTabs 2 window0 = Inr s1" "splitTabs 0 s1 = Inr s2"
    and s2: "data s2 = [\<lparr>tabs = 2, flexType = Flex\<rparr>, \<lparr>tabs = 0, flexType = Flex\<rparr>]"
      "arrays s2 = arrays0" "currentView s2 = 1"
    and act: "\<forall>x\<in>set (arrays0 0). docShellIsActive (tabState s2 x)"
    by blast
  have a: "arrays s2 0 = [1, 2]" "arrays s2 2 = [5, 6, 7]" by (simp_all add: s2 arrays0_at)
  have on: "docShellIsActive (tabState s2 1)" "docShellIsActive (tabState s2 2)"
    using act by (simp_all add: arrays0_at)
  have cur: "at (data s2) (currentView s2) = Some \<lparr>tabs = 0, flexType = Flex\<rparr>"
    by (simp add: at_def s2)
  have fi: "findIndex (groupIncludes s2 (Some 6)) (data s2) = int 0"
    by (simp add: groupIncludes_def includes_tab_def s2 arrays0_at)
  have ne: "currentView s2 \<noteq> int 0" by (simp add: s2)
  have sole: "sole_group s2 0"
    by (auto simp: sole_group_def s2 arrays0_at less_Suc_eq)
  have len: "3 \<le> length (arrays s2 (tabs (data s2 ! 0)))" by (simp add: s2 arrays0_at)
  from handleTabClose_inactive_group [OF cur fi ne sole len, of False]
  have "\<exists>s'. handleTabClose 6 False s2 = Inr s'
     \<and> currentView s' = 0 \<and> arrays s' 2 = [5, 7]
     \<and> \<not> docShellIsActive (tabState s' 1) \<and> \<not> docShellIsActive (tabState s' 2)
     \<and> attr_split (container (tabState s' 1)) = None
     \<and> docShellIsActive (tabState s' 5) \<and> docShellIsActive (tabState s' 7)
     \<and> attr_split_active (container (tabState s' 7)) = Some ''true''"
    by (simp add: s2(1) a) blast
  then show ?thesis using s12 cur s2(3) fi a on by auto
qed

end
